theory Spec2Isabelle
  imports Complex_Main "HOL-Library.Log_Nat" "HOL-Library.Sublist" "HOL-Library.Multiset"
begin

chapter \<open>LinXup intelligent link checker: a shallow embedding\<close>

text \<open>
  The development embeds \<^verbatim>\<open>src/linxup-checker.ts\<close> (class \<^verbatim>\<open>LinXupChecker\<close>).
  JavaScript strings are byte lists (\<^typ>\<open>string\<close>, UTF-8 for the few non-ASCII glyphs of
  the report), a thrown exception is the left summand of a sum type, and every awaited
  call to a collaborator (persistence gateway, crawler, analyzer, HTTP fetch, timer) is a
  function of an explicit world state that is also written to an event trace.
\<close>

section \<open>Definitions\<close>

subsection \<open>Thrown values\<close>

text \<open>A thrown \<^verbatim>\<open>Error\<close>; only its \<^verbatim>\<open>message\<close> is ever read by the checker.\<close>

datatype error = Error (message: string)

subsection \<open>IEEE-754 binary64 arithmetic on the values the checker computes\<close>

text \<open>
  A JavaScript \<^verbatim>\<open>number\<close> is a binary64 float. Finite doubles are rationals; every
  arithmetic operation returns the exact result rounded to the nearest double, ties to
  even. \<open>fl\<close> is that rounding for the normal range (53-bit significand); the checker only
  divides, subtracts and multiplies link counts (array lengths, below \<open>2^32\<close>) and
  millisecond clock differences, whose results are zero or of magnitude between
  \<open>2^-32\<close> and \<open>2^53\<close>, so neither subnormals nor overflow arise.
\<close>

definition pow2 :: "int \<Rightarrow> rat" where
  "pow2 e = (if 0 \<le> e then 2 ^ nat e else 1 / 2 ^ nat (- e))"

text \<open>\<open>ilog2 a\<close> is the binary exponent of a positive rational: \<open>2^(ilog2 a) \<le> a < 2^(ilog2 a + 1)\<close>.\<close>

definition ilog2 :: "rat \<Rightarrow> int" where
  "ilog2 a = (let (p, q) = quotient_of a;
                  d = bitlen p - bitlen q
              in if pow2 d \<le> a then d else d - 1)"

definition round_half_even :: "rat \<Rightarrow> int" where
  "round_half_even x =
     (let f = \<lfloor>x\<rfloor>; r = x - of_int f
      in if r < 1 / 2 then f
         else if 1 / 2 < r then f + 1
         else if even f then f else f + 1)"

definition fl :: "rat \<Rightarrow> rat" where
  "fl x = (if x = 0 then 0
           else let a = \<bar>x\<bar>;
                    e = ilog2 a - 52;
                    m = round_half_even (a / pow2 e)
                in sgn x * of_int m * pow2 e)"

definition fdiv :: "rat \<Rightarrow> rat \<Rightarrow> rat" where
  "fdiv x y = fl (x / y)"

definition fsub :: "rat \<Rightarrow> rat \<Rightarrow> rat" where
  "fsub x y = fl (x - y)"

definition fmul :: "rat \<Rightarrow> rat \<Rightarrow> rat" where
  "fmul x y = fl (x * y)"

text \<open>\<^verbatim>\<open>Math.round\<close>: the nearest integer, a tie going up.\<close>

definition Math_round :: "rat \<Rightarrow> int" where
  "Math_round x = \<lfloor>x + 1 / 2\<rfloor>"

subsection \<open>\<^verbatim>\<open>calculateHealthScore\<close>\<close>

text \<open>
  \<^verbatim>\<open>
  if (totalLinks === 0) return 100;
  const brokenRatio = brokenLinks / totalLinks;
  const score = Math.round((1 - brokenRatio) * 100);
  return Math.max(0, Math.min(100, score));
  \<close>
  Both arguments are array lengths.
\<close>

definition calculateHealthScore :: "nat \<Rightarrow> nat \<Rightarrow> int" where
  "calculateHealthScore totalLinks brokenLinks =
     (if totalLinks = 0 then 100
      else let brokenRatio = fdiv (of_nat brokenLinks) (of_nat totalLinks);
               score = Math_round (fmul (fsub 1 brokenRatio) 100)
           in max 0 (min 100 score))"

text \<open>
  The formula as the specification words it, over exact rational arithmetic:
  \<open>round((1 - brokenCount/totalCount) * 100)\<close> clamped to \<open>[0,100]\<close>.
\<close>

definition healthScore_spec :: "nat \<Rightarrow> nat \<Rightarrow> int" where
  "healthScore_spec totalCount brokenCount =
     (if totalCount = 0 then 100
      else max 0 (min 100
             (Math_round ((1 - of_nat brokenCount / of_nat totalCount) * 100))))"

subsection \<open>String primitives\<close>

text \<open>
  \<^verbatim>\<open>String.prototype.split\<close> with a one-character separator (empty pieces are kept),
  \<^verbatim>\<open>Array.prototype.join\<close>, \<^verbatim>\<open>endsWith\<close>, \<^verbatim>\<open>includes\<close>, and \<^verbatim>\<open>toUpperCase\<close> on the ASCII
  range (a URL's \<^verbatim>\<open>pathname\<close> is percent-encoded, hence ASCII; importance levels are
  ASCII words).
\<close>

fun split_on :: "char \<Rightarrow> string \<Rightarrow> string list" where
  "split_on sep [] = [[]]"
| "split_on sep (c # cs) =
     (if c = sep then [] # split_on sep cs
      else (case split_on sep cs of
              [] \<Rightarrow> [[c]]
            | w # ws \<Rightarrow> (c # w) # ws))"

fun join :: "string \<Rightarrow> string list \<Rightarrow> string" where
  "join sep [] = []"
| "join sep [w] = w"
| "join sep (w # v # ws) = w @ sep @ join sep (v # ws)"

definition endsWith :: "string \<Rightarrow> string \<Rightarrow> bool" where
  "endsWith suf s = (length suf \<le> length s \<and> drop (length s - length suf) s = suf)"

fun String_includes :: "string \<Rightarrow> string \<Rightarrow> bool" where
  "String_includes sub [] = (sub = [])"
| "String_includes sub (c # cs) = (take (length sub) (c # cs) = sub \<or> String_includes sub cs)"

definition toUpperCase_char :: "char \<Rightarrow> char" where
  "toUpperCase_char c =
     (let n = (of_char c :: nat) in if 97 \<le> n \<and> n \<le> 122 then char_of (n - 32) else c)"

definition toUpperCase :: "string \<Rightarrow> string" where
  "toUpperCase s = map toUpperCase_char s"

subsection \<open>\<^verbatim>\<open>extractLinkText\<close>\<close>

text \<open>
  \<^verbatim>\<open>
  try {
    const urlObj = new URL(url);
    const pathname = urlObj.pathname;
    const segments = pathname.split('/').filter((s) => s);
    const lastSegment = segments[segments.length - 1] || 'Home';
    return lastSegment
      .replace(/[-_]/g, ' ')
      .replace(/\.(html|htm|php)$/, '')
      .split(' ')
      .map((word) => word.charAt(0).toUpperCase() + word.slice(1))
      .join(' ');
  } catch { return 'Link'; }
  \<close>
  The platform's \<^verbatim>\<open>URL\<close> constructor is a parameter: \<open>parse u\<close> is the
  \<^verbatim>\<open>pathname\<close> of \<^verbatim>\<open>new URL(u)\<close>, and \<open>None\<close> when the constructor throws. Nothing else
  in the \<^verbatim>\<open>try\<close> block can throw.
\<close>

text \<open>\<^verbatim>\<open>.replace(/[-_]/g, ' ')\<close>\<close>

definition replace_separators :: "string \<Rightarrow> string" where
  "replace_separators s =
     map (\<lambda>c. if c = CHR ''-'' \<or> c = CHR ''_'' then CHR '' '' else c) s"

text \<open>
  \<^verbatim>\<open>.replace(/\.(html|htm|php)$/, '')\<close>: without the \<^verbatim>\<open>m\<close> flag \<^verbatim>\<open>$\<close> matches at the end of
  the input only, so the one possible match is a suffix of the string.
\<close>

definition strip_extension :: "string \<Rightarrow> string" where
  "strip_extension s =
     (if endsWith ''.html'' s then take (length s - 5) s
      else if endsWith ''.htm'' s then take (length s - 4) s
      else if endsWith ''.php'' s then take (length s - 4) s
      else s)"

text \<open>\<^verbatim>\<open>word.charAt(0).toUpperCase() + word.slice(1)\<close>\<close>

definition capitalize :: "string \<Rightarrow> string" where
  "capitalize word = (case word of [] \<Rightarrow> [] | c # cs \<Rightarrow> toUpperCase_char c # cs)"

definition lastSegment :: "string \<Rightarrow> string" where
  "lastSegment pathname =
     (let segments = filter (\<lambda>s. s \<noteq> []) (split_on CHR ''/'' pathname)
      in if segments = [] then ''Home'' else last segments)"

definition extractLinkText :: "(string \<Rightarrow> string option) \<Rightarrow> string \<Rightarrow> string" where
  "extractLinkText parse u =
     (case parse u of
        None \<Rightarrow> ''Link''
      | Some pathname \<Rightarrow>
          join '' '' (map capitalize (split_on CHR '' ''
            (strip_extension (replace_separators (lastSegment pathname))))))"

text \<open>
  The label as the specification words it, written without the functions above.
  ``Split on \<open>/\<close>'': the piece before the first separator, then the pieces of what follows
  that separator.
\<close>

function split_spec :: "char \<Rightarrow> string \<Rightarrow> string list" where
  "split_spec sep s =
     (case dropWhile (\<lambda>c. c \<noteq> sep) s of
        [] \<Rightarrow> [s]
      | c # rest \<Rightarrow> takeWhile (\<lambda>c. c \<noteq> sep) s # split_spec sep rest)"
  by pat_completeness auto

termination
proof (relation "measure (\<lambda>(sep, s). length s)")
  show "wf (measure (\<lambda>(sep, s). length s))" by simp
next
  fix sep :: char and s c rest
  assume "dropWhile (\<lambda>c. c \<noteq> sep) s = c # rest"
  then have "length (c # rest) \<le> length s"
    using length_dropWhile_le [of "\<lambda>c. c \<noteq> sep" s] by simp
  then show "((sep, rest), (sep, s)) \<in> measure (\<lambda>(sep, s). length s)" by simp
qed

declare split_spec.simps [simp del]

text \<open>``Drop empty segments, take the last segment (default \<open>Home\<close> if none).''\<close>

definition lastSegment_spec :: "string \<Rightarrow> string" where
  "lastSegment_spec pathname =
     (case rev (filter (\<lambda>segment. segment \<noteq> []) (split_spec CHR ''/'' pathname)) of
        [] \<Rightarrow> ''Home''
      | segment # earlier \<Rightarrow> segment)"

text \<open>``Strip a trailing \<open>.html|.htm|.php\<close> extension.''\<close>

definition strip_extension_spec :: "string \<Rightarrow> string" where
  "strip_extension_spec s =
     (case filter (\<lambda>ext. suffix ext s) [''.html'', ''.htm'', ''.php''] of
        [] \<Rightarrow> s
      | ext # others \<Rightarrow> take (length s - length ext) s)"

text \<open>``Replace \<open>-\<close>/\<open>_\<close> with spaces.''\<close>

definition replace_separators_spec :: "string \<Rightarrow> string" where
  "replace_separators_spec s = map (\<lambda>c. if c \<in> {CHR ''-'', CHR ''_''} then CHR '' '' else c) s"

text \<open>
  ``Title-case each word'': the first character of every word, when it is a lower-case
  letter, becomes the upper-case letter; a word is a maximal run of characters other than
  the space. \<open>titleCase_from start s\<close> reads \<open>s\<close> knowing whether a word starts at its head.
\<close>

definition upper_spec :: "char \<Rightarrow> char" where
  "upper_spec c =
     (case map_of (zip ''abcdefghijklmnopqrstuvwxyz'' ''ABCDEFGHIJKLMNOPQRSTUVWXYZ'') c of
        None \<Rightarrow> c
      | Some C \<Rightarrow> C)"

fun titleCase_from :: "bool \<Rightarrow> string \<Rightarrow> string" where
  "titleCase_from start [] = []"
| "titleCase_from start (c # cs) =
     (if c = CHR '' '' then c # titleCase_from True cs
      else (if start then upper_spec c else c) # titleCase_from False cs)"

definition titleCase_spec :: "string \<Rightarrow> string" where
  "titleCase_spec s = titleCase_from True s"

definition label_spec :: "string \<Rightarrow> string" where
  "label_spec pathname =
     titleCase_spec (replace_separators_spec (strip_extension_spec (lastSegment_spec pathname)))"

subsection \<open>Data model\<close>

text \<open>
  \<^verbatim>\<open>LinkResult\<close>, \<^verbatim>\<open>CrawlResult\<close> and \<^verbatim>\<open>CheckOptions\<close> come from the crawler; the checker reads
  \<^verbatim>\<open>url\<close>, \<^verbatim>\<open>status\<close>, \<^verbatim>\<open>state\<close> and \<^verbatim>\<open>parent\<close> of a link and \<^verbatim>\<open>path\<close> of the options (the options
  are otherwise handed to the crawler untouched). An optional field is an \<open>option\<close>.
  Fields that several interfaces share by name carry a prefix here.
\<close>

datatype LinkState = OK | BROKEN | SKIPPED

record LinkResult =
  link_url :: string
  link_status :: "nat option"
  link_state :: LinkState
  link_parent :: "string option"

record CrawlResult =
  passed :: bool
  links :: "LinkResult list"

record CheckOptions =
  path :: string

datatype ImportanceLevel = critical | high | medium | low

fun importance_string :: "ImportanceLevel \<Rightarrow> string" where
  "importance_string critical = ''critical''"
| "importance_string high = ''high''"
| "importance_string medium = ''medium''"
| "importance_string low = ''low''"

record LinkAnalysisResult =
  intendedDestination :: string
  linkPurpose :: string
  importance :: ImportanceLevel
  businessImpact :: string
  suggestedFixes :: "string list"
  reasoning :: string
  priorityScore :: int

record BrokenLinkInput =
  brokenUrl :: string
  input_statusCode :: "nat option"
  foundOnUrl :: string
  input_linkText :: "string option"
  input_htmlContext :: "string option"
  surroundingText :: "string option"

record BrokenLinkWithAI =
  url :: string
  statusCode :: "nat option"
  foundOn :: string
  linkText :: "string option"
  htmlContext :: "string option"
  aiAnalysis :: LinkAnalysisResult
  dbId :: nat

text \<open>
  \<^verbatim>\<open>IntelligentScanResult\<close>. The type parameter is what the field \<^verbatim>\<open>brokenLinksWithAI\<close> holds:
  the list itself where \<^verbatim>\<open>checkWithIntelligence\<close> builds and returns it, or the address of
  the array in a store of arrays where \<^verbatim>\<open>generateReport\<close> receives the object and the
  effect on the caller's array is in question.
\<close>

record 'arr IntelligentScanResult =
  res_passed :: bool
  res_links :: "LinkResult list"
  scanId :: nat
  res_websiteId :: nat
  totalLinks :: nat
  brokenLinksCount :: nat
  healthScore :: int
  brokenLinksWithAI :: "'arr"
  scanDuration :: int

text \<open>Rows and JSON columns of the persistence gateway (\<^verbatim>\<open>persistence/database.ts\<close>).\<close>

record ScanResult =
  scan_id :: nat
  scan_website_id :: nat
  scan_type :: string
  scan_status :: string

record BrokenLink =
  bl_id :: nat
  bl_scan_id :: nat
  bl_url :: string

record AIAnalysis =
  db_intendedDestination :: string
  db_linkPurpose :: string
  db_importance :: string
  db_businessImpact :: string
  db_reasoning :: string

datatype FixSource = wayback | gpt4 | similar_page

record SuggestedFix =
  fix_url :: string
  fix_source :: FixSource
  fix_confidence :: rat

text \<open>The body of the archive service's answer, as the checker types it.\<close>

record ClosestSnapshot =
  snap_url :: "string option"
  snap_available :: "bool option"

record ArchivedSnapshots =
  closest :: "ClosestSnapshot option"

record WaybackData =
  archived_snapshots :: "ArchivedSnapshots option"

text \<open>A \<^verbatim>\<open>fetch\<close> response: \<^verbatim>\<open>response.ok\<close>, and what \<^verbatim>\<open>await response.json()\<close> gives or throws.\<close>

record Response =
  ok :: bool
  json :: "error + WaybackData"

subsection \<open>Collaborators, world and trace\<close>

text \<open>
  The collaborators are parameters. Each awaited call maps the world to a result, or a
  thrown error, and a new world. The orchestrator's model appends every call it makes to
  a trace, with its outcome, so that what the orchestrator did to the persistence gateway
  can be stated.
\<close>

datatype effect =
    CreateScanResult nat string "nat option"
  | Check CheckOptions
  | AnalyzeContext BrokenLinkInput
  | Fetch string
  | CreateBrokenLink nat string "nat option" string "string option" "string option"
  | UpdateBrokenLinkWithAI nat AIAnalysis "SuggestedFix list" int bool
  | CompleteScanResult nat nat nat int
  | MarkScanFailed nat string
  | SetTimeout nat

datatype outcome = Returned | Threw error

type_synonym event = "effect \<times> outcome"

record 'w run_state =
  world :: 'w
  trace :: "event list"

text \<open>
  \<open>db_markFailed env id msg\<close> stands for
  \<^verbatim>\<open>db.query("UPDATE scan_results SET status = 'failed', error_message = $2 WHERE id = $1", [id, msg])\<close>,
  \<open>db_completeScanResult\<close> for the gateway's \<^verbatim>\<open>completeScanResult\<close>
  (\<^verbatim>\<open>UPDATE scan_results SET ... status = 'completed' WHERE id = $1\<close>), and
  \<open>db_createScanResult\<close> for \<^verbatim>\<open>createScanResult\<close> (\<^verbatim>\<open>INSERT ... status 'running'\<close>).
\<close>

record 'w env =
  now :: "'w \<Rightarrow> int"
  URL_pathname :: "string \<Rightarrow> string option"
  encodeURIComponent :: "string \<Rightarrow> error + string"
  db_createScanResult :: "nat \<Rightarrow> string \<Rightarrow> nat option \<Rightarrow> 'w \<Rightarrow> (error + ScanResult) \<times> 'w"
  check :: "CheckOptions \<Rightarrow> 'w \<Rightarrow> (error + CrawlResult) \<times> 'w"
  analyzeContext :: "BrokenLinkInput \<Rightarrow> 'w \<Rightarrow> (error + LinkAnalysisResult) \<times> 'w"
  fetch :: "string \<Rightarrow> 'w \<Rightarrow> (error + Response) \<times> 'w"
  db_createBrokenLink ::
    "nat \<Rightarrow> string \<Rightarrow> nat option \<Rightarrow> string \<Rightarrow> string option \<Rightarrow> string option
      \<Rightarrow> 'w \<Rightarrow> (error + BrokenLink) \<times> 'w"
  db_updateBrokenLinkWithAI ::
    "nat \<Rightarrow> AIAnalysis \<Rightarrow> SuggestedFix list \<Rightarrow> int \<Rightarrow> bool
      \<Rightarrow> 'w \<Rightarrow> (error + BrokenLink) \<times> 'w"
  db_completeScanResult :: "nat \<Rightarrow> nat \<Rightarrow> nat \<Rightarrow> int \<Rightarrow> 'w \<Rightarrow> (error + ScanResult) \<times> 'w"
  db_markFailed :: "nat \<Rightarrow> string \<Rightarrow> 'w \<Rightarrow> (error + unit) \<times> 'w"
  setTimeout :: "nat \<Rightarrow> 'w \<Rightarrow> 'w"

text \<open>The constructor's arguments other than the collaborators.\<close>

record checker =
  websiteId :: nat
  userId :: "nat option"
  includeWayback :: bool

definition outcome_of :: "error + 'a \<Rightarrow> outcome" where
  "outcome_of r = (case r of Inl e \<Rightarrow> Threw e | Inr _ \<Rightarrow> Returned)"

text \<open>An awaited call: run it on the world, log it with its outcome.\<close>

definition perform ::
  "effect \<Rightarrow> ('w \<Rightarrow> (error + 'a) \<times> 'w) \<Rightarrow> 'w run_state \<Rightarrow> (error + 'a) \<times> 'w run_state" where
  "perform c f s =
     (case f (world s) of
        (r, w') \<Rightarrow> (r, \<lparr>world = w', trace = trace s @ [(c, outcome_of r)]\<rparr>))"

text \<open>\<^verbatim>\<open>await new Promise((resolve) => setTimeout(resolve, ms))\<close>\<close>

definition sleep :: "'w env \<Rightarrow> nat \<Rightarrow> 'w run_state \<Rightarrow> 'w run_state" where
  "sleep env ms s =
     \<lparr>world = setTimeout env ms (world s), trace = trace s @ [(SetTimeout ms, Returned)]\<rparr>"

subsection \<open>\<^verbatim>\<open>checkWaybackMachine\<close>\<close>

text \<open>
  \<^verbatim>\<open>
  try {
    const waybackApiUrl = `https://archive.org/wayback/available?url=${encodeURIComponent(url)}`;
    const response = await fetch(waybackApiUrl);
    if (!response.ok) { return null; }
    const data = (await response.json()) as {...};
    if (data.archived_snapshots?.closest?.available) {
      return data.archived_snapshots.closest.url || null;
    }
    return null;
  } catch (error) { console.error(...); return null; }
  \<close>
\<close>

text \<open>\<^verbatim>\<open>data.archived_snapshots?.closest\<close>\<close>

definition closest_of :: "WaybackData \<Rightarrow> ClosestSnapshot option" where
  "closest_of data =
     (case archived_snapshots data of None \<Rightarrow> None | Some a \<Rightarrow> closest a)"

text \<open>The truthiness of \<^verbatim>\<open>data.archived_snapshots?.closest?.available\<close>\<close>

definition available_truthy :: "WaybackData \<Rightarrow> bool" where
  "available_truthy data =
     (case closest_of data of None \<Rightarrow> False | Some c \<Rightarrow> snap_available c = Some True)"

text \<open>\<^verbatim>\<open>data.archived_snapshots.closest.url || null\<close>, reached only when \<open>closest\<close> is there.\<close>

definition url_or_null :: "WaybackData \<Rightarrow> string option" where
  "url_or_null data =
     (case closest_of data of
        None \<Rightarrow> None
      | Some c \<Rightarrow> (case snap_url c of
                     None \<Rightarrow> None
                   | Some u \<Rightarrow> if u = [] then None else Some u))"

definition wayback_api :: string where
  "wayback_api = ''https://archive.org/wayback/available?url=''"

text \<open>The \<^verbatim>\<open>try\<close> block.\<close>

definition checkWaybackMachine_try ::
  "'w env \<Rightarrow> string \<Rightarrow> 'w run_state \<Rightarrow> (error + string option) \<times> 'w run_state" where
  "checkWaybackMachine_try env u s =
     (case encodeURIComponent env u of
        Inl e \<Rightarrow> (Inl e, s)
      | Inr enc \<Rightarrow>
          (let waybackApiUrl = wayback_api @ enc in
           case perform (Fetch waybackApiUrl) (fetch env waybackApiUrl) s of
             (Inl e, s1) \<Rightarrow> (Inl e, s1)
           | (Inr response, s1) \<Rightarrow>
               if \<not> ok response then (Inr None, s1)
               else (case json response of
                       Inl e \<Rightarrow> (Inl e, s1)
                     | Inr data \<Rightarrow>
                         if available_truthy data then (Inr (url_or_null data), s1)
                         else (Inr None, s1))))"

text \<open>The whole method: the \<^verbatim>\<open>catch\<close> clause turns every thrown error into \<^verbatim>\<open>null\<close>.\<close>

definition checkWaybackMachine ::
  "'w env \<Rightarrow> string \<Rightarrow> 'w run_state \<Rightarrow> (error + string option) \<times> 'w run_state" where
  "checkWaybackMachine env u s =
     (case checkWaybackMachine_try env u s of
        (Inl e, s1) \<Rightarrow> (Inr None, s1)
      | (Inr r, s1) \<Rightarrow> (Inr r, s1))"

subsection \<open>\<^verbatim>\<open>extractContext\<close>\<close>

text \<open>
  \<^verbatim>\<open>
  return {
    linkText: this.extractLinkText(link.url),
    htmlContext: `<a href="${link.url}">Link</a>`,
    surroundingText: undefined,
  };
  \<close>
\<close>

record LinkContext =
  ctx_linkText :: "string option"
  ctx_htmlContext :: "string option"
  ctx_surroundingText :: "string option"

definition extractContext :: "'w env \<Rightarrow> LinkResult \<Rightarrow> LinkContext" where
  "extractContext env link =
     \<lparr>ctx_linkText = Some (extractLinkText (URL_pathname env) (link_url link)),
      ctx_htmlContext =
        Some (''<a href='' @ [CHR 0x22] @ link_url link @ [CHR 0x22] @ ''>Link</a>''),
      ctx_surroundingText = None\<rparr>"

subsection \<open>The per-link step of \<^verbatim>\<open>checkWithIntelligence\<close>\<close>

text \<open>\<^verbatim>\<open>link.status || null\<close>\<close>

definition status_or_null :: "LinkResult \<Rightarrow> nat option" where
  "status_or_null link =
     (case link_status link of None \<Rightarrow> None | Some n \<Rightarrow> if n = 0 then None else Some n)"

text \<open>\<^verbatim>\<open>link.parent || options.path as string\<close>\<close>

definition parent_or_path :: "CheckOptions \<Rightarrow> LinkResult \<Rightarrow> string" where
  "parent_or_path options link =
     (case link_parent link of
        None \<Rightarrow> path options
      | Some p \<Rightarrow> if p = [] then path options else p)"

definition aiInput_of :: "'w env \<Rightarrow> CheckOptions \<Rightarrow> LinkResult \<Rightarrow> BrokenLinkInput" where
  "aiInput_of env options link =
     (let context = extractContext env link in
      \<lparr>brokenUrl = link_url link,
       input_statusCode = status_or_null link,
       foundOnUrl = parent_or_path options link,
       input_linkText = ctx_linkText context,
       input_htmlContext = ctx_htmlContext context,
       surroundingText = ctx_surroundingText context\<rparr>)"

definition aiAnalysisForDb :: "LinkAnalysisResult \<Rightarrow> AIAnalysis" where
  "aiAnalysisForDb a =
     \<lparr>db_intendedDestination = intendedDestination a,
      db_linkPurpose = linkPurpose a,
      db_importance = importance_string (importance a),
      db_businessImpact = businessImpact a,
      db_reasoning = reasoning a\<rparr>"

definition suggestedFixesForDb :: "LinkAnalysisResult \<Rightarrow> SuggestedFix list" where
  "suggestedFixesForDb a =
     map (\<lambda>u. \<lparr>fix_url = u,
               fix_source = (if String_includes ''web.archive.org'' u then wayback else gpt4),
               fix_confidence = 8 / 10\<rparr>)
         (suggestedFixes a)"

text \<open>
  \<^verbatim>\<open>
  if (this.includeWayback) {
    const waybackUrl = await this.checkWaybackMachine(link.url);
    if (waybackUrl) { aiAnalysis.suggestedFixes.unshift(waybackUrl); }
  }
  \<close>
  \<^verbatim>\<open>unshift\<close> changes the list of the analysis object in place; the same object is later
  stored in the finding and mapped to the rows for the gateway, so the model hands the
  updated analysis on.
\<close>

definition addWayback ::
  "'w env \<Rightarrow> checker \<Rightarrow> LinkResult \<Rightarrow> LinkAnalysisResult \<Rightarrow> 'w run_state
     \<Rightarrow> (error + LinkAnalysisResult) \<times> 'w run_state" where
  "addWayback env cfg link a s =
     (if includeWayback cfg then
        (case checkWaybackMachine env (link_url link) s of
           (Inl e, s1) \<Rightarrow> (Inl e, s1)
         | (Inr None, s1) \<Rightarrow> (Inr a, s1)
         | (Inr (Some waybackUrl), s1) \<Rightarrow>
             if waybackUrl = [] then (Inr a, s1)
             else (Inr (a\<lparr>suggestedFixes := waybackUrl # suggestedFixes a\<rparr>), s1))
      else (Inr a, s))"

text \<open>
  The body of the inner \<^verbatim>\<open>try\<close> for link number \<open>i\<close> of \<open>n\<close> broken links (lines 133-211):
  \<open>Inl\<close> when a step throws, otherwise the finding that is pushed. The delay sits at the
  end of the \<^verbatim>\<open>try\<close> block, after the push: \<^verbatim>\<open>if (i < brokenLinks.length - 1) await ...\<close>.
\<close>

definition processLink ::
  "'w env \<Rightarrow> checker \<Rightarrow> CheckOptions \<Rightarrow> nat \<Rightarrow> nat \<Rightarrow> nat \<Rightarrow> LinkResult \<Rightarrow> 'w run_state
     \<Rightarrow> (error + BrokenLinkWithAI) \<times> 'w run_state" where
  "processLink env cfg options sid n i link s =
     (let context = extractContext env link;
          aiInput = aiInput_of env options link
      in case perform (AnalyzeContext aiInput) (analyzeContext env aiInput) s of
           (Inl e, s1) \<Rightarrow> (Inl e, s1)
         | (Inr a0, s1) \<Rightarrow>
         (case addWayback env cfg link a0 s1 of
           (Inl e, s2) \<Rightarrow> (Inl e, s2)
         | (Inr a, s2) \<Rightarrow>
         (case perform
                 (CreateBrokenLink sid (link_url link) (status_or_null link)
                    (parent_or_path options link) (ctx_linkText context)
                    (ctx_htmlContext context))
                 (db_createBrokenLink env sid (link_url link) (status_or_null link)
                    (parent_or_path options link) (ctx_linkText context)
                    (ctx_htmlContext context)) s2 of
           (Inl e, s3) \<Rightarrow> (Inl e, s3)
         | (Inr brokenLinkRecord, s3) \<Rightarrow>
         (case perform
                 (UpdateBrokenLinkWithAI (bl_id brokenLinkRecord) (aiAnalysisForDb a)
                    (suggestedFixesForDb a) (priorityScore a) (importance a = critical))
                 (db_updateBrokenLinkWithAI env (bl_id brokenLinkRecord) (aiAnalysisForDb a)
                    (suggestedFixesForDb a) (priorityScore a) (importance a = critical)) s3 of
           (Inl e, s4) \<Rightarrow> (Inl e, s4)
         | (Inr _, s4) \<Rightarrow>
             (Inr \<lparr>url = link_url link,
                   statusCode = status_or_null link,
                   foundOn = parent_or_path options link,
                   linkText = ctx_linkText context,
                   htmlContext = ctx_htmlContext context,
                   aiAnalysis = a,
                   dbId = bl_id brokenLinkRecord\<rparr>,
              if int i < int n - 1 then sleep env 1000 s4 else s4)))))"

text \<open>
  The \<^verbatim>\<open>for\<close> loop over the broken links, from index \<open>i\<close>: a thrown error is caught by the
  inner \<^verbatim>\<open>catch\<close>, which only logs, and the loop goes on with the next link.
\<close>

fun processLinks ::
  "'w env \<Rightarrow> checker \<Rightarrow> CheckOptions \<Rightarrow> nat \<Rightarrow> nat \<Rightarrow> nat \<Rightarrow> LinkResult list
     \<Rightarrow> BrokenLinkWithAI list \<Rightarrow> 'w run_state \<Rightarrow> BrokenLinkWithAI list \<times> 'w run_state" where
  "processLinks env cfg options sid n i [] acc s = (acc, s)"
| "processLinks env cfg options sid n i (link # rest) acc s =
     (case processLink env cfg options sid n i link s of
        (Inl e, s1) \<Rightarrow> processLinks env cfg options sid n (Suc i) rest acc s1
      | (Inr finding, s1) \<Rightarrow> processLinks env cfg options sid n (Suc i) rest (acc @ [finding]) s1)"

subsection \<open>\<^verbatim>\<open>checkWithIntelligence\<close>\<close>

text \<open>\<^verbatim>\<open>this.userId ? 'manual' : 'scheduled'\<close>\<close>

definition scanType_of :: "checker \<Rightarrow> string" where
  "scanType_of cfg =
     (case userId cfg of
        None \<Rightarrow> ''scheduled''
      | Some u \<Rightarrow> if u = 0 then ''scheduled'' else ''manual'')"

definition brokenLinks_of :: "CrawlResult \<Rightarrow> LinkResult list" where
  "brokenLinks_of crawlResult = filter (\<lambda>link. link_state link = BROKEN) (links crawlResult)"

text \<open>The outer \<^verbatim>\<open>try\<close> block (lines 110-248), entered once the scan record exists.\<close>

definition scan_try ::
  "'w env \<Rightarrow> checker \<Rightarrow> CheckOptions \<Rightarrow> int \<Rightarrow> ScanResult \<Rightarrow> 'w run_state
     \<Rightarrow> (error + BrokenLinkWithAI list IntelligentScanResult) \<times> 'w run_state" where
  "scan_try env cfg options startTime scanResult s =
     (case perform (Check options) (check env options) s of
        (Inl e, s1) \<Rightarrow> (Inl e, s1)
      | (Inr crawlResult, s1) \<Rightarrow>
          (let brokenLinks = brokenLinks_of crawlResult;
               (found, s2) =
                 (if length brokenLinks > 0
                  then processLinks env cfg options (scan_id scanResult) (length brokenLinks) 0
                         brokenLinks [] s1
                  else ([], s1));
               score = calculateHealthScore (length (links crawlResult)) (length brokenLinks)
           in case perform
                     (CompleteScanResult (scan_id scanResult) (length (links crawlResult))
                        (length brokenLinks) score)
                     (db_completeScanResult env (scan_id scanResult) (length (links crawlResult))
                        (length brokenLinks) score) s2 of
                (Inl e, s3) \<Rightarrow> (Inl e, s3)
              | (Inr _, s3) \<Rightarrow>
                  (Inr \<lparr>res_passed = passed crawlResult,
                        res_links = links crawlResult,
                        scanId = scan_id scanResult,
                        res_websiteId = websiteId cfg,
                        totalLinks = length (links crawlResult),
                        brokenLinksCount = length brokenLinks,
                        healthScore = score,
                        brokenLinksWithAI = found,
                        scanDuration = now env (world s3) - startTime\<rparr>, s3)))"

text \<open>
  The method: create the scan record (outside the \<^verbatim>\<open>try\<close>), run the \<^verbatim>\<open>try\<close> block, and in
  the \<^verbatim>\<open>catch\<close> clause await the update that marks the scan failed, then rethrow. An error
  thrown by that update leaves the \<^verbatim>\<open>catch\<close> clause in place of the caught one.
\<close>

definition checkWithIntelligence ::
  "'w env \<Rightarrow> checker \<Rightarrow> CheckOptions \<Rightarrow> 'w run_state
     \<Rightarrow> (error + BrokenLinkWithAI list IntelligentScanResult) \<times> 'w run_state" where
  "checkWithIntelligence env cfg options s =
     (let startTime = now env (world s) in
      case perform (CreateScanResult (websiteId cfg) (scanType_of cfg) (userId cfg))
             (db_createScanResult env (websiteId cfg) (scanType_of cfg) (userId cfg)) s of
        (Inl e, s1) \<Rightarrow> (Inl e, s1)
      | (Inr scanResult, s1) \<Rightarrow>
          (case scan_try env cfg options startTime scanResult s1 of
             (Inr result, s2) \<Rightarrow> (Inr result, s2)
           | (Inl err, s2) \<Rightarrow>
               (case perform (MarkScanFailed (scan_id scanResult) (message err))
                       (db_markFailed env (scan_id scanResult) (message err)) s2 of
                  (Inl e2, s3) \<Rightarrow> (Inl e2, s3)
                | (Inr _, s3) \<Rightarrow> (Inl err, s3))))"

subsection \<open>Number formatting\<close>

text \<open>Decimal digits of a non-negative integer, as template literals print it.\<close>

definition digit :: "nat \<Rightarrow> char" where
  "digit d = ''0123456789'' ! d"

fun show_nat :: "nat \<Rightarrow> string" where
  "show_nat n =
     (if n < 10 then [digit n]
      else show_nat (n div 10) @ [digit (n mod 10)])"

declare show_nat.simps [simp del]

definition show_int :: "int \<Rightarrow> string" where
  "show_int i = (if i < 0 then ''-'' @ show_nat (nat (- i)) else show_nat (nat i))"

text \<open>
  \<^verbatim>\<open>x.toFixed(2)\<close> for a double \<open>x\<close> below \<open>10^21\<close>: the integer \<open>n\<close> with \<open>n / 100\<close> nearest to
  \<open>|x|\<close> (the larger one on a tie), printed with two decimals, after a minus sign when
  \<open>x < 0\<close>.
\<close>

definition toFixed2 :: "rat \<Rightarrow> string" where
  "toFixed2 x =
     (let n = nat \<lfloor>\<bar>x\<bar> * 100 + 1 / 2\<rfloor>
      in (if x < 0 then ''-'' else []) @ show_nat (n div 100) @ ''.''
         @ [digit (n mod 100 div 10), digit (n mod 10)])"

subsection \<open>\<^verbatim>\<open>Array.prototype.sort\<close> and the store of arrays\<close>

text \<open>
  \<^verbatim>\<open>Array.prototype.sort\<close> with a comparison function is stable: an element stays in front
  of every later element that the comparison does not put before it. The model is the
  stable insertion sort driven by the comparison function.
\<close>

fun insert_by :: "('a \<Rightarrow> 'a \<Rightarrow> int) \<Rightarrow> 'a \<Rightarrow> 'a list \<Rightarrow> 'a list" where
  "insert_by cmp x [] = [x]"
| "insert_by cmp x (y # ys) =
     (if cmp x y \<le> 0 then x # y # ys else y # insert_by cmp x ys)"

definition array_sort :: "('a \<Rightarrow> 'a \<Rightarrow> int) \<Rightarrow> 'a list \<Rightarrow> 'a list" where
  "array_sort cmp xs = foldr (insert_by cmp) xs []"

text \<open>
  Arrays are objects: a variable or a field holds a reference. A store is the list of the
  arrays allocated so far, and a reference is an index into it.
\<close>

type_synonym 'a store = "'a list list"

text \<open>\<^verbatim>\<open>[...a]\<close>: a new array with the elements of \<open>a\<close>; returns its reference.\<close>

definition array_spread :: "'a store \<Rightarrow> nat \<Rightarrow> nat \<times> 'a store" where
  "array_spread h a = (length h, h @ [h ! a])"

text \<open>\<^verbatim>\<open>a.sort(cmp)\<close>: sorts the array \<open>a\<close> in place and returns the same reference.\<close>

definition array_sort_in_place :: "('a \<Rightarrow> 'a \<Rightarrow> int) \<Rightarrow> 'a store \<Rightarrow> nat \<Rightarrow> nat \<times> 'a store" where
  "array_sort_in_place cmp h a = (a, h[a := array_sort cmp (h ! a)])"

subsection \<open>\<^verbatim>\<open>generateReport\<close>\<close>

text \<open>
  The report is a byte string; the glyphs outside ASCII are their UTF-8 bytes. \<open>line s\<close>
  is \<open>s\<close> followed by a newline.
\<close>

definition glyph :: "nat list \<Rightarrow> string" where
  "glyph bytes = map char_of bytes"

definition line :: "string \<Rightarrow> string" where
  "line s = s @ [CHR 0x0A]"

definition repeat :: "string \<Rightarrow> nat \<Rightarrow> string" where
  "repeat s n = concat (replicate n s)"

definition getHealthEmoji :: "int \<Rightarrow> string" where
  "getHealthEmoji score =
     (if score \<ge> 95 then glyph [0xF0, 0x9F, 0x9F, 0xA2]
      else if score \<ge> 80 then glyph [0xF0, 0x9F, 0x9F, 0xA1]
      else if score \<ge> 60 then glyph [0xF0, 0x9F, 0x9F, 0xA0]
      else glyph [0xF0, 0x9F, 0x94, 0xB4])"

text \<open>Lines 352-364: the title box and the summary block.\<close>

definition report_summary :: "'arr IntelligentScanResult \<Rightarrow> string" where
  "report_summary result =
     line []
     @ line (glyph [0xE2, 0x95, 0x94] @ repeat (glyph [0xE2, 0x95, 0x90]) 79
             @ glyph [0xE2, 0x95, 0x97])
     @ line (glyph [0xE2, 0x95, 0x91]
             @ ''                        LinXup Intelligent Scan Report                         ''
             @ glyph [0xE2, 0x95, 0x91])
     @ line (glyph [0xE2, 0x95, 0x9A] @ repeat (glyph [0xE2, 0x95, 0x90]) 79
             @ glyph [0xE2, 0x95, 0x9D])
     @ line []
     @ line (glyph [0xF0, 0x9F, 0x93, 0x8A] @ '' SCAN SUMMARY'')
     @ line (repeat (glyph [0xE2, 0x94, 0x80]) 80)
     @ line (''Total Links Checked:    '' @ show_nat (totalLinks result))
     @ line (''Broken Links Found:     '' @ show_nat (brokenLinksCount result))
     @ line (''Health Score:           '' @ show_int (healthScore result) @ ''/100 ''
             @ getHealthEmoji (healthScore result))
     @ line (''Scan Duration:          ''
             @ toFixed2 (fdiv (of_int (scanDuration result)) 1000) @ ''s'')
     @ line (''Database Scan ID:       '' @ show_nat (scanId result))
     @ line []"

text \<open>Lines 367-368: the heading of the findings.\<close>

definition report_heading :: string where
  "report_heading =
     line (glyph [0xF0, 0x9F, 0x94, 0xB4] @ '' BROKEN LINKS WITH AI ANALYSIS'')
     @ line (repeat (glyph [0xE2, 0x94, 0x80]) 80) @ line []"

text \<open>Lines 376-398: the block of the finding at index \<open>i\<close> of the sorted array.\<close>

definition report_link :: "nat \<Rightarrow> BrokenLinkWithAI \<Rightarrow> string" where
  "report_link i link =
     (let analysis = aiAnalysis link in
      line (''['' @ show_nat (i + 1) @ ''] '' @ url link)
      @ line (''    Status: ''
              @ (case statusCode link of
                   None \<Rightarrow> ''Unknown''
                 | Some c \<Rightarrow> if c = 0 then ''Unknown'' else show_nat c)
              @ '' | Priority: '' @ show_int (priorityScore analysis)
              @ ''/100 | Importance: '' @ toUpperCase (importance_string (importance analysis)))
      @ line (''    Found On: '' @ foundOn link)
      @ (case linkText link of
           None \<Rightarrow> []
         | Some t \<Rightarrow>
             if t = [] then []
             else line (''    Link Text: '' @ [CHR 0x22] @ t @ [CHR 0x22]))
      @ line []
      @ line (''    '' @ glyph [0xF0, 0x9F, 0x93, 0x8D] @ '' Intended: ''
              @ intendedDestination analysis)
      @ line (''    '' @ glyph [0xF0, 0x9F, 0x8E, 0xAF] @ '' Purpose: '' @ linkPurpose analysis)
      @ line (''    '' @ glyph [0xF0, 0x9F, 0x92, 0xBC] @ '' Business Impact: ''
              @ businessImpact analysis)
      @ line (''    '' @ glyph [0xF0, 0x9F, 0x92, 0xA1] @ '' Reasoning: '' @ reasoning analysis)
      @ (if length (suggestedFixes analysis) > 0
         then line []
              @ line (''    '' @ glyph [0xF0, 0x9F, 0x94, 0xA7] @ '' Suggested Fixes:'')
              @ concat (map (\<lambda>fix. line (''       '' @ glyph [0xE2, 0x80, 0xA2] @ '' '' @ fix))
                          (suggestedFixes analysis))
         else [])
      @ line [])"

text \<open>The \<^verbatim>\<open>for\<close> loop over the sorted array.\<close>

definition report_links :: "BrokenLinkWithAI list \<Rightarrow> string" where
  "report_links sortedLinks =
     concat (map (\<lambda>(i, link). report_link i link) (enumerate 0 sortedLinks))"

text \<open>Lines 401-402.\<close>

definition report_none :: "'arr IntelligentScanResult \<Rightarrow> string" where
  "report_none result =
     line (glyph [0xE2, 0x9C, 0x85] @ '' NO BROKEN LINKS FOUND!'')
     @ line (''All '' @ show_nat (totalLinks result) @ '' links are working perfectly.'')
     @ line []"

text \<open>Lines 405-407.\<close>

definition report_footer :: string where
  "report_footer =
     line (repeat (glyph [0xE2, 0x95, 0x90]) 80)
     @ line ''Powered by LinXup - AI-Powered Link Monitoring''
     @ line (repeat (glyph [0xE2, 0x95, 0x90]) 80)"

text \<open>\<^verbatim>\<open>(a, b) => b.aiAnalysis.priorityScore - a.aiAnalysis.priorityScore\<close>\<close>

definition by_priority :: "BrokenLinkWithAI \<Rightarrow> BrokenLinkWithAI \<Rightarrow> int" where
  "by_priority a b = priorityScore (aiAnalysis b) - priorityScore (aiAnalysis a)"

text \<open>
  \<^verbatim>\<open>
  if (result.brokenLinksWithAI.length > 0) {
    ...
    const sortedLinks = [...result.brokenLinksWithAI].sort(
      (a, b) => b.aiAnalysis.priorityScore - a.aiAnalysis.priorityScore);
    for (let i = 0; i < sortedLinks.length; i++) { ... }
  } else { ... }
  \<close>
  The method in a store \<open>h\<close> of arrays: it returns the text and the store it leaves.
\<close>

definition generateReport ::
  "BrokenLinkWithAI store \<Rightarrow> nat IntelligentScanResult \<Rightarrow> string \<times> BrokenLinkWithAI store" where
  "generateReport h result =
     (if length (h ! brokenLinksWithAI result) > 0 then
        (let (copy, h1) = array_spread h (brokenLinksWithAI result);
             (sortedLinks, h2) = array_sort_in_place by_priority h1 copy
         in (report_summary result @ report_heading @ report_links (h2 ! sortedLinks)
             @ report_footer, h2))
      else (report_summary result @ report_none result @ report_footer, h))"

subsection \<open>Runs, trace predicates and a test environment\<close>

text \<open>A scan started in world \<open>w\<close> with an empty trace.\<close>

definition run ::
  "'w env \<Rightarrow> checker \<Rightarrow> CheckOptions \<Rightarrow> 'w
     \<Rightarrow> (error + BrokenLinkWithAI list IntelligentScanResult) \<times> 'w run_state" where
  "run env cfg options w = checkWithIntelligence env cfg options \<lparr>world = w, trace = []\<rparr>"

text \<open>
  A concrete environment for the examples. The world is a clock in milliseconds that only
  the timer advances; the crawler reports the given links; the analyzer always answers
  with three suggested fixes; the archive service answers with the given snapshot; the
  gateway refuses to insert the link \<open>https://example.org/no-insert\<close> and accepts
  everything else.
\<close>

definition test_pathname :: "string \<Rightarrow> string option" where
  "test_pathname u =
     (if take 19 u = ''https://example.org'' then Some (drop 19 u) else None)"

definition test_analysis :: "BrokenLinkInput \<Rightarrow> LinkAnalysisResult" where
  "test_analysis inp =
     \<lparr>intendedDestination = ''Unknown'', linkPurpose = ''Unknown'', importance = medium,
      businessImpact = ''Unknown impact'',
      suggestedFixes = [''https://example.org/a'', ''https://example.org/b'',
                        ''https://example.org/c''],
      reasoning = ''No reasoning provided'', priorityScore = 50\<rparr>"

definition test_snapshot :: ClosestSnapshot where
  "test_snapshot =
     \<lparr>snap_url = Some ''http://web.archive.org/web/2020/page'', snap_available = Some True\<rparr>"

definition test_env :: "LinkResult list \<Rightarrow> ClosestSnapshot \<Rightarrow> nat env" where
  "test_env ls snap =
     \<lparr>now = int,
      URL_pathname = test_pathname,
      encodeURIComponent = Inr,
      db_createScanResult = (\<lambda>wid ty uid w.
        (Inr \<lparr>scan_id = 7, scan_website_id = wid, scan_type = ty, scan_status = ''running''\<rparr>, w)),
      check = (\<lambda>opts w. (Inr \<lparr>passed = False, links = ls\<rparr>, w)),
      analyzeContext = (\<lambda>inp w. (Inr (test_analysis inp), w)),
      fetch = (\<lambda>u w.
        (Inr \<lparr>ok = True, json = Inr \<lparr>archived_snapshots = Some \<lparr>closest = Some snap\<rparr>\<rparr>\<rparr>, w)),
      db_createBrokenLink = (\<lambda>sid u st fo lt hc w.
        if u = ''https://example.org/no-insert'' then (Inl (Error ''insert failed''), w)
        else (Inr \<lparr>bl_id = length u, bl_scan_id = sid, bl_url = u\<rparr>, w)),
      db_updateBrokenLinkWithAI = (\<lambda>lid a f p c w.
        (Inr \<lparr>bl_id = lid, bl_scan_id = 7, bl_url = []\<rparr>, w)),
      db_completeScanResult = (\<lambda>sid t b sc w.
        (Inr \<lparr>scan_id = sid, scan_website_id = 1, scan_type = ''manual'',
              scan_status = ''completed''\<rparr>, w)),
      db_markFailed = (\<lambda>sid m w. (Inr (), w)),
      setTimeout = (\<lambda>ms w. w + ms)\<rparr>"

definition broken_link :: "string \<Rightarrow> LinkResult" where
  "broken_link u =
     \<lparr>link_url = u, link_status = Some 404, link_state = BROKEN,
      link_parent = Some ''https://example.org/''\<rparr>"

definition test_cfg :: "bool \<Rightarrow> checker" where
  "test_cfg wb = \<lparr>websiteId = 1, userId = Some 2, includeWayback = wb\<rparr>"

definition test_options :: CheckOptions where
  "test_options = \<lparr>path = ''https://example.org/''\<rparr>"


text \<open>
  The calls that write a terminal state to a scan record: \<^verbatim>\<open>completeScanResult\<close>
  (\<open>completed\<close>) and the update to \<open>failed\<close>, whatever the outcome of the call. The database
  may have applied a statement whose call then throws.
\<close>

definition terminal_call :: "event \<Rightarrow> bool" where
  "terminal_call e =
     (case fst e of
        CompleteScanResult sid t b sc \<Rightarrow> True
      | MarkScanFailed sid m \<Rightarrow> True
      | _ \<Rightarrow> False)"


text \<open>The calls made while one broken link is processed.\<close>

definition link_event :: "event \<Rightarrow> bool" where
  "link_event e =
     (case fst e of
        AnalyzeContext inp \<Rightarrow> True
      | Fetch u \<Rightarrow> True
      | CreateBrokenLink sid u st fo lt hc \<Rightarrow> True
      | UpdateBrokenLinkWithAI lid a f p c \<Rightarrow> True
      | SetTimeout ms \<Rightarrow> True
      | _ \<Rightarrow> False)"

text \<open>The finding pushed for a link, given the analysis and the row id.\<close>

definition finding_of ::
  "'w env \<Rightarrow> CheckOptions \<Rightarrow> LinkResult \<Rightarrow> LinkAnalysisResult \<Rightarrow> nat \<Rightarrow> BrokenLinkWithAI" where
  "finding_of env options l a rid =
     \<lparr>url = link_url l,
      statusCode = status_or_null l,
      foundOn = parent_or_path options l,
      linkText = ctx_linkText (extractContext env l),
      htmlContext = ctx_htmlContext (extractContext env l),
      aiAnalysis = a,
      dbId = rid\<rparr>"

text \<open>
  A finding is the finding of a link: its URL, status, found-on page, link text and HTML
  context are the link's (the analysis and the row id come from the collaborators).
\<close>

definition describes :: "'w env \<Rightarrow> CheckOptions \<Rightarrow> LinkResult \<Rightarrow> BrokenLinkWithAI \<Rightarrow> bool" where
  "describes env options l f =
     (url f = link_url l
      \<and> statusCode f = status_or_null l
      \<and> foundOn f = parent_or_path options l
      \<and> linkText f = Some (extractLinkText (URL_pathname env) (link_url l))
      \<and> htmlContext f =
          Some (''<a href='' @ [CHR 0x22] @ link_url l @ [CHR 0x22] @ ''>Link</a>''))"

definition test_scan :: ScanResult where
  "test_scan = \<lparr>scan_id = 7, scan_website_id = 1, scan_type = ''manual'', scan_status = ''running''\<rparr>"

text \<open>
  What each iteration of the loop over the broken links produced, in order: the outcome
  of the \<^verbatim>\<open>try\<close> block of each link, run in the state the loop had reached.
\<close>

fun link_outcomes ::
  "'w env \<Rightarrow> checker \<Rightarrow> CheckOptions \<Rightarrow> nat \<Rightarrow> nat \<Rightarrow> nat \<Rightarrow> LinkResult list \<Rightarrow> 'w run_state
     \<Rightarrow> (error + BrokenLinkWithAI) list" where
  "link_outcomes env cfg options sid n i [] s = []"
| "link_outcomes env cfg options sid n i (link # rest) s =
     (case processLink env cfg options sid n i link s of
        (r, s1) \<Rightarrow> r # link_outcomes env cfg options sid n (Suc i) rest s1)"



subsection \<open>Failing environments, bounds and event kinds\<close>

text \<open>The crawler throws.\<close>

definition crawl_fails_env :: "nat env" where
  "crawl_fails_env =
     (test_env [] test_snapshot)\<lparr>check := (\<lambda>opts w. (Inl (Error ''crawl failed''), w))\<rparr>"

text \<open>The crawler throws, and then the update that marks the scan failed throws too.\<close>

definition crawl_and_mark_fail_env :: "nat env" where
  "crawl_and_mark_fail_env =
     crawl_fails_env\<lparr>db_markFailed := (\<lambda>sid m w. (Inl (Error ''connection lost''), w))\<rparr>"

text \<open>The gateway cannot create the scan record.\<close>

definition create_fails_env :: "nat env" where
  "create_fails_env =
     (test_env [] test_snapshot)
       \<lparr>db_createScanResult := (\<lambda>wid ty uid w. (Inl (Error ''no connection''), w))\<rparr>"

text \<open>
  A gateway that keeps the table \<^verbatim>\<open>scan_results\<close> in memory, as the list of the row versions
  written so far, oldest first. An \<^verbatim>\<open>UPDATE ... WHERE id = $1\<close> writes a new version of the
  row with that id, and nothing when there is none.
\<close>

definition write_status :: "nat \<Rightarrow> string \<Rightarrow> ScanResult list \<Rightarrow> ScanResult list" where
  "write_status sid st db =
     (case filter (\<lambda>row. scan_id row = sid) (rev db) of
        [] \<Rightarrow> db
      | row # older \<Rightarrow> db @ [row\<lparr>scan_status := st\<rparr>])"

text \<open>The states the table has held for a scan, oldest first.\<close>

definition recorded_states :: "ScanResult list \<Rightarrow> nat \<Rightarrow> string list" where
  "recorded_states db sid = map scan_status (filter (\<lambda>row. scan_id row = sid) db)"

text \<open>
  The connection is lost while \<^verbatim>\<open>completeScanResult\<close> waits for the reply to its \<^verbatim>\<open>UPDATE\<close>:
  the server has applied the statement, \<^verbatim>\<open>pool.query\<close> rejects, \<^verbatim>\<open>Database.query\<close> logs and
  rethrows, and so does \<^verbatim>\<open>completeScanResult\<close>. Every other call succeeds.
\<close>

definition reply_lost_env :: "LinkResult list \<Rightarrow> ScanResult list env" where
  "reply_lost_env ls =
     \<lparr>now = (\<lambda>db. 0),
      URL_pathname = test_pathname,
      encodeURIComponent = Inr,
      db_createScanResult = (\<lambda>wid ty uid db.
        (Inr \<lparr>scan_id = Suc (length db), scan_website_id = wid, scan_type = ty,
              scan_status = ''running''\<rparr>,
         db @ [\<lparr>scan_id = Suc (length db), scan_website_id = wid, scan_type = ty,
                scan_status = ''running''\<rparr>])),
      check = (\<lambda>opts db. (Inr \<lparr>passed = False, links = ls\<rparr>, db)),
      analyzeContext = (\<lambda>inp db. (Inr (test_analysis inp), db)),
      fetch = (\<lambda>u db. (Inl (Error ''fetch failed''), db)),
      db_createBrokenLink = (\<lambda>sid u st fo lt hc db.
        (Inr \<lparr>bl_id = length u, bl_scan_id = sid, bl_url = u\<rparr>, db)),
      db_updateBrokenLinkWithAI = (\<lambda>lid a f p c db.
        (Inr \<lparr>bl_id = lid, bl_scan_id = 1, bl_url = []\<rparr>, db)),
      db_completeScanResult = (\<lambda>sid t b sc db.
        (Inl (Error ''Connection terminated unexpectedly''), write_status sid ''completed'' db)),
      db_markFailed = (\<lambda>sid m db. (Inr (), write_status sid ''failed'' db)),
      setTimeout = (\<lambda>ms db. db)\<rparr>"

text \<open>Kinds of events.\<close>

definition is_fetch :: "event \<Rightarrow> bool" where
  "is_fetch e = (case fst e of Fetch u \<Rightarrow> True | _ \<Rightarrow> False)"

definition is_analyze :: "event \<Rightarrow> bool" where
  "is_analyze e = (case fst e of AnalyzeContext inp \<Rightarrow> True | _ \<Rightarrow> False)"

definition is_delay :: "event \<Rightarrow> bool" where
  "is_delay e = (case fst e of SetTimeout ms \<Rightarrow> True | _ \<Rightarrow> False)"

text \<open>The number of suggested fixes an update of a finding's row carries.\<close>

definition fixes_at_most :: "nat \<Rightarrow> event \<Rightarrow> bool" where
  "fixes_at_most k e =
     (case fst e of
        UpdateBrokenLinkWithAI lid a fixes p c \<Rightarrow> length fixes \<le> k
      | _ \<Rightarrow> True)"

text \<open>The bound that holds: one more than the analyzer's three when the archive lookup is on.\<close>

definition fixes_bound :: "checker \<Rightarrow> nat" where
  "fixes_bound cfg = (if includeWayback cfg then 4 else 3)"

text \<open>The analyzer's contract: at most three suggested fixes.\<close>

definition analyzer_contract :: "'w env \<Rightarrow> bool" where
  "analyzer_contract env =
     (\<forall>inp w a w'. analyzeContext env inp w = (Inr a, w') \<longrightarrow> length (suggestedFixes a) \<le> 3)"

text \<open>Batches of broken links for the examples.\<close>

definition one_link :: "LinkResult list" where
  "one_link = [broken_link ''https://example.org/donate'']"

definition two_links :: "LinkResult list" where
  "two_links =
     [broken_link ''https://example.org/no-insert'',
      broken_link ''https://example.org/donate'']"

subsection \<open>Examples for the archive lookup and the report\<close>


text \<open>A snapshot that is marked available and whose \<^verbatim>\<open>url\<close> field is the empty string.\<close>

definition empty_url_snapshot :: ClosestSnapshot where
  "empty_url_snapshot = \<lparr>snap_url = Some [], snap_available = Some True\<rparr>"

text \<open>Findings and a result object for the examples of the report.\<close>

definition test_finding :: "string \<Rightarrow> int \<Rightarrow> BrokenLinkWithAI" where
  "test_finding u p =
     \<lparr>url = u, statusCode = Some 404, foundOn = ''https://example.org/'',
      linkText = Some ''Page'', htmlContext = None,
      aiAnalysis =
        \<lparr>intendedDestination = ''Unknown'', linkPurpose = ''Unknown'', importance = medium,
         businessImpact = ''Unknown impact'', suggestedFixes = [],
         reasoning = ''No reasoning provided'', priorityScore = p\<rparr>,
      dbId = 1\<rparr>"

definition test_store :: "BrokenLinkWithAI store" where
  "test_store =
     [[test_finding ''https://example.org/a'' 50,
       test_finding ''https://example.org/b'' 90,
       test_finding ''https://example.org/c'' 50]]"

definition test_result :: "nat IntelligentScanResult" where
  "test_result =
     \<lparr>res_passed = False, res_links = [], scanId = 7, res_websiteId = 1, totalLinks = 10,
      brokenLinksCount = 3, healthScore = 70, brokenLinksWithAI = 0, scanDuration = 1234\<rparr>"

section \<open>Theorems\<close>

subsection \<open>Double precision\<close>

text \<open>
  The rounding \<open>fl\<close> is checked against what defines round-to-nearest: the exponent found
  is the binary exponent of the argument, the result has a 53-bit significand at that
  exponent and lies within half a unit in the last place, and values that have a 53-bit
  significand (among them all link counts) are not changed.
\<close>

lemma pow2_powi: "pow2 e = 2 powi e"
  by (simp add: pow2_def power_int_def inverse_eq_divide power_one_over)

lemma pow2_pos [simp]: "0 < pow2 e"
  by (simp add: pow2_powi)

lemma pow2_nonzero [simp]: "pow2 e \<noteq> 0"
  by (simp add: pow2_powi)

lemma pow2_nonneg [simp]: "0 \<le> pow2 e"
  by (simp add: pow2_powi)

lemma abs_pow2 [simp]: "\<bar>pow2 e\<bar> = pow2 e"
  by (simp add: abs_of_nonneg)

lemma pow2_add: "pow2 (a + b) = pow2 a * pow2 b"
  by (simp add: pow2_powi power_int_add)

lemma pow2_mono: "a \<le> b \<Longrightarrow> pow2 a \<le> pow2 b"
  by (simp add: pow2_powi power_int_increasing)

lemma pow2_nat: "pow2 (int n) = 2 ^ n"
  by (simp add: pow2_def)

lemma ilog2_bounds:
  assumes "0 < a"
  shows "pow2 (ilog2 a) \<le> a \<and> a < pow2 (ilog2 a + 1)"
proof -
  obtain p q where pq: "quotient_of a = (p, q)" by (cases "quotient_of a")
  have q: "0 < q" using pq by (rule quotient_of_denom_pos)
  have a: "a = of_int p / of_int q" using pq by (rule quotient_of_div)
  have p: "0 < p" using assms q a by (simp add: zero_less_divide_iff)
  define bp where "bp = bitlen p"
  define bq where "bq = bitlen q"
  have bp1: "1 \<le> bp" and bq1: "1 \<le> bq"
    using p q bitlen_eq_zero_iff [of p] bitlen_eq_zero_iff [of q] bitlen_nonneg [of p]
      bitlen_nonneg [of q] by (auto simp: bp_def bq_def)
  have "2 ^ nat (bp - 1) \<le> p" "p < 2 ^ nat bp" "2 ^ nat (bq - 1) \<le> q" "q < 2 ^ nat bq"
    using bitlen_bounds [OF p] bitlen_bounds [OF q] by (simp_all add: bp_def bq_def)
  then have P: "pow2 (bp - 1) \<le> of_int p" "of_int p < pow2 bp"
    and Q: "pow2 (bq - 1) \<le> of_int q" "of_int q < pow2 bq"
    using bp1 bq1
    by (simp_all add: pow2_def)
  have qpos: "(0::rat) < of_int q" using q by simp
  have ppos: "(0::rat) < of_int p" using p by simp
  have up: "a < pow2 (bp - bq + 1)"
  proof -
    have "of_int p * pow2 (bq - 1) < pow2 bp * of_int q"
      by (rule mult_less_le_imp_less) (use P(2) Q(1) ppos in simp_all)
    then have "of_int p < pow2 bp * of_int q / pow2 (bq - 1)"
      by (simp add: pos_less_divide_eq)
    then have "a < pow2 bp / pow2 (bq - 1)"
      using qpos by (simp add: a pos_divide_less_eq mult.commute)
    moreover have "pow2 bp = pow2 (bp - bq + 1) * pow2 (bq - 1)"
      by (simp flip: pow2_add)
    ultimately show ?thesis by simp
  qed
  have lo: "pow2 (bp - bq - 1) < a"
  proof -
    have "pow2 (bp - 1) * of_int q < of_int p * pow2 bq"
      by (rule mult_le_less_imp_less) (use P(1) Q(2) qpos in simp_all)
    moreover have "pow2 (bp - 1) = pow2 (bp - bq - 1) * pow2 bq"
      by (simp flip: pow2_add)
    ultimately have "pow2 (bp - bq - 1) * of_int q < of_int p"
      by (simp add: mult.assoc mult.left_commute [of _ "pow2 bq"] mult.commute [of "pow2 bq"])
    then show ?thesis using qpos by (simp add: a pos_less_divide_eq)
  qed
  show ?thesis
  proof (cases "pow2 (bp - bq) \<le> a")
    case True
    then have "ilog2 a = bp - bq" by (simp add: ilog2_def pq bp_def bq_def)
    with True up show ?thesis by simp
  next
    case False
    then have "ilog2 a = bp - bq - 1" by (simp add: ilog2_def pq bp_def bq_def)
    with False lo show ?thesis by simp
  qed
qed

lemma ilog2_unique:
  assumes "0 < a" "pow2 k \<le> a" "a < pow2 (k + 1)"
  shows "ilog2 a = k"
proof (rule ccontr)
  assume ne: "ilog2 a \<noteq> k"
  from ilog2_bounds [OF assms(1)]
  have b: "pow2 (ilog2 a) \<le> a" "a < pow2 (ilog2 a + 1)" by simp_all
  show False
  proof (cases "ilog2 a < k")
    case True
    then have "pow2 (ilog2 a + 1) \<le> pow2 k" by (intro pow2_mono) simp
    with b(2) assms(2) show False by simp
  next
    case False
    with ne have "pow2 (k + 1) \<le> pow2 (ilog2 a)" by (intro pow2_mono) simp
    with b(1) assms(3) show False by simp
  qed
qed

lemma pow2_numerals: "pow2 52 = 2 ^ 52" "pow2 53 = 2 ^ 53" "pow2 (- 1) = 1 / 2"
  by (simp_all add: pow2_def)

lemma pow2_shift:
  "pow2 k = 2 ^ 52 * pow2 (k - 52)" "pow2 (k + 1) = 2 ^ 53 * pow2 (k - 52)"
  "pow2 (k - 53) = 1 / 2 * pow2 (k - 52)"
proof -
  have "pow2 k = pow2 (52 + (k - 52))" by (rule arg_cong [of _ _ pow2]) simp
  also have "\<dots> = pow2 52 * pow2 (k - 52)" by (rule pow2_add)
  finally show "pow2 k = 2 ^ 52 * pow2 (k - 52)" by (simp only: pow2_numerals)
  have "pow2 (k + 1) = pow2 (53 + (k - 52))" by (rule arg_cong [of _ _ pow2]) simp
  also have "\<dots> = pow2 53 * pow2 (k - 52)" by (rule pow2_add)
  finally show "pow2 (k + 1) = 2 ^ 53 * pow2 (k - 52)" by (simp only: pow2_numerals)
  have "pow2 (k - 53) = pow2 (- 1 + (k - 52))" by (rule arg_cong [of _ _ pow2]) simp
  also have "\<dots> = pow2 (- 1) * pow2 (k - 52)" by (rule pow2_add)
  finally show "pow2 (k - 53) = 1 / 2 * pow2 (k - 52)" by (simp only: pow2_numerals)
qed

lemma round_half_even_floor:
  "round_half_even y = \<lfloor>y\<rfloor> \<or> round_half_even y = \<lfloor>y\<rfloor> + 1"
  by (simp add: round_half_even_def Let_def)

lemma round_half_even_error: "\<bar>of_int (round_half_even y) - y\<bar> \<le> 1 / 2"
proof -
  have b: "of_int \<lfloor>y\<rfloor> \<le> y" "y < of_int \<lfloor>y\<rfloor> + 1" by linarith+
  consider (lower) "y - of_int \<lfloor>y\<rfloor> < 1 / 2" | (upper) "1 / 2 < y - of_int \<lfloor>y\<rfloor>"
    | (tie) "y - of_int \<lfloor>y\<rfloor> = 1 / 2" by linarith
  then show ?thesis
  proof cases
    case lower
    then have "round_half_even y = \<lfloor>y\<rfloor>" by (simp add: round_half_even_def Let_def)
    with lower b show ?thesis by (simp; linarith)
  next
    case upper
    then have "round_half_even y = \<lfloor>y\<rfloor> + 1" by (simp add: round_half_even_def Let_def)
    with upper b show ?thesis by (simp; linarith)
  next
    case tie
    from round_half_even_floor [of y] tie b show ?thesis
      by (elim disjE) (simp; linarith)+
  qed
qed

lemma round_half_even_int [simp]: "round_half_even (of_int m) = m"
  by (simp add: round_half_even_def)

lemma round_half_even_range:
  assumes "of_int lo \<le> y" "y < of_int hi"
  shows "lo \<le> round_half_even y \<and> round_half_even y \<le> hi"
proof -
  have "lo \<le> \<lfloor>y\<rfloor>" using assms(1) by (simp add: le_floor_iff)
  moreover have "\<lfloor>y\<rfloor> < hi" using assms(2) by (simp add: floor_less_iff)
  ultimately show ?thesis using round_half_even_floor [of y] by auto
qed

text \<open>
  \<open>fl x\<close> is a double next to \<open>x\<close>: its significand is an integer of 53 bits at the
  exponent of \<open>x\<close>, and it is off by at most half a unit in the last place.
\<close>

lemma fl_significand:
  assumes "x \<noteq> 0"
  shows "\<exists>m. fl x = sgn x * of_int m * pow2 (ilog2 \<bar>x\<bar> - 52) \<and> 2 ^ 52 \<le> m \<and> m \<le> 2 ^ 53"
proof -
  let ?e = "ilog2 \<bar>x\<bar> - 52"
  let ?y = "\<bar>x\<bar> / pow2 ?e"
  have pos: "0 < \<bar>x\<bar>" using assms by simp
  from ilog2_bounds [OF pos]
  have b: "2 ^ 52 * pow2 ?e \<le> \<bar>x\<bar>" "\<bar>x\<bar> < 2 ^ 53 * pow2 ?e"
    by (simp_all only: pow2_shift [symmetric])
  have "of_int (2 ^ 52) \<le> ?y" "?y < of_int (2 ^ 53)"
    using b by (simp_all add: pos_le_divide_eq pos_divide_less_eq)
  from round_half_even_range [OF this]
  have "2 ^ 52 \<le> round_half_even ?y \<and> round_half_even ?y \<le> 2 ^ 53" .
  moreover have "fl x = sgn x * of_int (round_half_even ?y) * pow2 ?e"
    using assms by (simp add: fl_def Let_def)
  ultimately show ?thesis by blast
qed

lemma fl_error:
  assumes "x \<noteq> 0"
  shows "\<bar>fl x - x\<bar> \<le> pow2 (ilog2 \<bar>x\<bar> - 53)"
proof -
  let ?e = "ilog2 \<bar>x\<bar> - 52"
  let ?y = "\<bar>x\<bar> / pow2 ?e"
  let ?m = "round_half_even ?y"
  have x: "x = sgn x * (?y * pow2 ?e)"
    by (simp add: mult_sgn_abs)
  have f: "fl x = sgn x * (of_int ?m * pow2 ?e)"
    using assms by (simp add: fl_def Let_def)
  have "fl x - x = sgn x * (of_int ?m * pow2 ?e) - sgn x * (?y * pow2 ?e)"
    using x f by simp
  also have "\<dots> = sgn x * ((of_int ?m - ?y) * pow2 ?e)"
    by (simp only: right_diff_distrib left_diff_distrib)
  finally have "\<bar>fl x - x\<bar> = \<bar>sgn x\<bar> * (\<bar>of_int ?m - ?y\<bar> * \<bar>pow2 ?e\<bar>)"
    by (simp only: abs_mult)
  also have "\<dots> = \<bar>of_int ?m - ?y\<bar> * pow2 ?e"
    using assms by (simp add: abs_sgn_eq)
  also have "\<dots> \<le> 1 / 2 * pow2 ?e"
    by (intro mult_right_mono round_half_even_error) simp
  also have "\<dots> = pow2 (ilog2 \<bar>x\<bar> - 53)"
    by (simp only: pow2_shift(3))
  finally show ?thesis .
qed

text \<open>A value with a 53-bit significand is a double: rounding leaves it as it is.\<close>

lemma fl_representable:
  assumes "2 ^ 52 \<le> m" "m < 2 ^ 53"
  shows "fl (of_int m * pow2 e) = of_int m * pow2 e"
proof -
  let ?x = "of_int m * pow2 e"
  have m1: "(2::rat) ^ 52 \<le> of_int m"
  proof -
    have "(of_int (2 ^ 52) :: rat) \<le> of_int m" using assms(1) by (simp only: of_int_le_iff)
    then show ?thesis by simp
  qed
  have m2: "of_int m < (2::rat) ^ 53"
  proof -
    have "(of_int m :: rat) < of_int (2 ^ 53)" using assms(2) by (simp only: of_int_less_iff)
    then show ?thesis by simp
  qed
  have mpos: "(0::rat) < of_int m" using m1 by (rule less_le_trans [rotated]) simp
  have xpos: "0 < ?x" using mpos by simp
  have lo: "pow2 (e + 52) \<le> ?x"
  proof -
    have "pow2 (e + 52) = 2 ^ 52 * pow2 e" using pow2_shift(1) [of "e + 52"] by simp
    also have "\<dots> \<le> ?x" using m1 by (intro mult_right_mono) simp_all
    finally show ?thesis .
  qed
  have hi: "?x < pow2 (e + 52 + 1)"
  proof -
    have "?x < 2 ^ 53 * pow2 e" using m2 by (intro mult_strict_right_mono) simp_all
    also have "\<dots> = pow2 (e + 52 + 1)" using pow2_shift(2) [of "e + 52"] by simp
    finally show ?thesis .
  qed
  have "ilog2 ?x = e + 52" using xpos lo hi by (rule ilog2_unique)
  then have "ilog2 \<bar>?x\<bar> - 52 = e" using xpos by (simp add: abs_of_pos)
  then show ?thesis
    using xpos by (simp add: fl_def Let_def abs_of_pos sgn_if)
qed

text \<open>Link counts are doubles: every positive integer below \<open>2^53\<close> is left as it is.\<close>

lemma fl_of_nat:
  assumes "0 < n" "n < 2 ^ 53"
  shows "fl (of_nat n) = of_nat n"
proof -
  define b where "b = bitlen (int n)"
  have npos: "0 < int n" using assms(1) by simp
  from bitlen_bounds [OF npos]
  have bb: "2 ^ nat (b - 1) \<le> int n" "int n < 2 ^ nat b" by (simp_all add: b_def)
  have b1: "1 \<le> b"
    using npos bitlen_eq_zero_iff [of "int n"] bitlen_nonneg [of "int n"] by (simp add: b_def)
  have b53: "b \<le> 53"
  proof (rule ccontr)
    assume "\<not> b \<le> 53"
    then have "(2::int) ^ 53 \<le> 2 ^ nat (b - 1)" by (intro power_increasing) simp_all
    moreover have "int n < 2 ^ 53"
      using assms(2) by (metis of_nat_less_iff of_nat_numeral of_nat_power)
    ultimately show False using bb(1) by linarith
  qed
  define k where "k = nat (53 - b)"
  define m where "m = int n * 2 ^ k"
  have kb: "nat (b - 1) + k = 52" "nat b + k = 53" using b1 b53 by (simp_all add: k_def)
  have "2 ^ 52 \<le> m"
  proof -
    have "(2::int) ^ 52 = 2 ^ nat (b - 1) * 2 ^ k" by (simp only: kb(1) [symmetric] power_add)
    also have "\<dots> \<le> m" unfolding m_def using bb(1) by (intro mult_right_mono) simp_all
    finally show ?thesis .
  qed
  moreover have "m < 2 ^ 53"
  proof -
    have "m < 2 ^ nat b * 2 ^ k" unfolding m_def using bb(2) by (intro mult_strict_right_mono) simp_all
    also have "\<dots> = 2 ^ 53" by (simp only: kb(2) [symmetric] power_add)
    finally show ?thesis .
  qed
  ultimately have "fl (of_int m * pow2 (- int k)) = of_int m * pow2 (- int k)"
    by (rule fl_representable)
  moreover have "of_int m * pow2 (- int k) = (of_nat n :: rat)"
    by (simp add: m_def pow2_def)
  ultimately show ?thesis by simp
qed

subsection \<open>Health score\<close>

lemma calculateHealthScore_range:
  "0 \<le> calculateHealthScore t b \<and> calculateHealthScore t b \<le> 100"
  by (simp add: calculateHealthScore_def Let_def)

lemma calculateHealthScore_10_1: "calculateHealthScore 10 1 = 90"
  by code_simp

lemma calculateHealthScore_10_10: "calculateHealthScore 10 10 = 0"
  by code_simp

lemma calculateHealthScore_3_1: "calculateHealthScore 3 1 = 67"
  by code_simp

lemma fl_zero [simp]: "fl 0 = 0"
  by (simp add: fl_def)

lemma fl_relative_error: "\<bar>fl x - x\<bar> \<le> \<bar>x\<bar> * pow2 (- 53)"
proof (cases "x = 0")
  case True
  then show ?thesis by simp
next
  case False
  then have pos: "0 < \<bar>x\<bar>" by simp
  have "\<bar>fl x - x\<bar> \<le> pow2 (ilog2 \<bar>x\<bar> - 53)" using False by (rule fl_error)
  also have "pow2 (ilog2 \<bar>x\<bar> - 53) = pow2 (ilog2 \<bar>x\<bar>) * pow2 (- 53)"
    using pow2_add [of "ilog2 \<bar>x\<bar>" "- 53"] by simp
  also have "\<dots> \<le> \<bar>x\<bar> * pow2 (- 53)"
    using ilog2_bounds [OF pos] by (intro mult_right_mono) simp_all
  finally show ?thesis .
qed

text \<open>
  The double-precision value of \<open>(1 - b/t) * 100\<close> for \<open>b \<le> t\<close> is within \<open>512 * 2^-53\<close> of
  the exact value.
\<close>

lemma score_error:
  assumes "0 < t" "b \<le> t"
  shows "\<bar>fmul (fsub 1 (fdiv (of_nat b) (of_nat t))) 100
           - (1 - of_nat b / of_nat t) * 100\<bar> \<le> 512 * pow2 (- 53)"
proof -
  define d :: rat where "d = pow2 (- 53)"
  define r :: rat where "r = of_nat b / of_nat t"
  define r' where "r' = fl r"
  define u where "u = 1 - r'"
  define s where "s = fl u"
  define p where "p = fl (s * 100)"
  have d: "0 < d" "d \<le> 1 / 4" by (simp_all add: d_def pow2_def)
  have r: "0 \<le> r" "r \<le> 1" using assms by (simp_all add: r_def)
  have e1: "\<bar>r' - r\<bar> \<le> d"
  proof -
    have "\<bar>r' - r\<bar> \<le> \<bar>r\<bar> * d" unfolding r'_def d_def by (rule fl_relative_error)
    also have "\<dots> \<le> 1 * d" using r d by (intro mult_right_mono) simp_all
    finally show ?thesis by simp
  qed
  have u1: "\<bar>u - (1 - r)\<bar> \<le> d" using e1 by (simp add: u_def abs_minus_commute)
  have u2: "\<bar>u\<bar> \<le> 1 + d" using u1 r by linarith
  have e2: "\<bar>s - u\<bar> \<le> (1 + d) * d"
  proof -
    have "\<bar>s - u\<bar> \<le> \<bar>u\<bar> * d" unfolding s_def d_def by (rule fl_relative_error)
    also have "\<dots> \<le> (1 + d) * d" using u2 d by (intro mult_right_mono) simp_all
    finally show ?thesis .
  qed
  have dd: "(1 + d) * d \<le> 5 / 4 * d" using d by (intro mult_right_mono) simp_all
  have s2: "\<bar>s\<bar> \<le> 2" using e2 u2 dd d by linarith
  have e3: "\<bar>p - s * 100\<bar> \<le> 200 * d"
  proof -
    have "\<bar>p - s * 100\<bar> \<le> \<bar>s * 100\<bar> * d" unfolding p_def d_def by (rule fl_relative_error)
    also have "\<dots> = \<bar>s\<bar> * (100 * d)" by (simp add: abs_mult)
    also have "\<dots> \<le> 2 * (100 * d)" using s2 d by (intro mult_right_mono) simp_all
    finally show ?thesis by simp
  qed
  have e2': "\<bar>s - u\<bar> \<le> 5 / 4 * d" using e2 dd by linarith
  have b3: "p - s * 100 \<le> 200 * d" "- (200 * d) \<le> p - s * 100"
    using e3 by (simp_all only: abs_le_iff minus_diff_eq) linarith+
  have b2: "s - u \<le> 5 / 4 * d" "- (5 / 4 * d) \<le> s - u"
    using e2' by (simp_all only: abs_le_iff minus_diff_eq) linarith+
  have b1: "u - (1 - r) \<le> d" "- d \<le> u - (1 - r)"
    using u1 by (simp_all only: abs_le_iff minus_diff_eq) linarith+
  have "p - (1 - r) * 100 \<le> 512 * d" "- (p - (1 - r) * 100) \<le> 512 * d"
    using b1 b2 b3 d by (simp_all add: algebra_simps)
  then have "\<bar>p - (1 - r) * 100\<bar> \<le> 512 * d"
    by (simp only: abs_le_iff)
  then show ?thesis
    by (simp add: p_def s_def u_def r'_def r_def d_def fmul_def fsub_def fdiv_def)
qed

text \<open>Rounding a fraction \<open>n/d\<close> down is stable under an error below \<open>1/d\<close>, unless \<open>d\<close> divides \<open>n\<close>.\<close>

lemma floor_fraction_stable:
  fixes n d :: int and e :: rat
  assumes "0 < d" "\<not> d dvd n" "\<bar>e\<bar> < 1 / of_int d"
  shows "\<lfloor>of_int n / of_int d + e\<rfloor> = n div d"
proof -
  define m where "m = n mod d"
  have "0 \<le> m" "m < d" "m \<noteq> 0"
    using assms(1,2) by (simp_all add: m_def dvd_eq_mod_eq_0)
  then have m: "1 \<le> m" "m \<le> d - 1" by linarith+
  have dpos: "(0::rat) < of_int d" using assms(1) by simp
  have n: "(of_int n :: rat) = of_int (n div d) * of_int d + of_int m"
    by (simp add: m_def flip: of_int_mult of_int_add)
  have frac: "of_int n / of_int d = (of_int (n div d) :: rat) + of_int m / of_int d"
    using dpos by (simp add: n add_divide_distrib)
  have lo: "1 / of_int d \<le> (of_int m :: rat) / of_int d"
    using m(1) dpos by (simp add: divide_le_cancel)
  have hi: "(of_int m :: rat) / of_int d \<le> 1 - 1 / of_int d"
  proof -
    have "(of_int m :: rat) \<le> of_int d - 1" using m(2) by (simp flip: of_int_diff)
    then have "(of_int m :: rat) / of_int d \<le> (of_int d - 1) / of_int d"
      using dpos by (simp add: divide_le_cancel)
    also have "\<dots> = 1 - 1 / of_int d" using dpos by (simp add: diff_divide_distrib)
    finally show ?thesis .
  qed
  have e: "- (1 / of_int d) < e" "e < 1 / of_int d" using assms(3) by (simp_all add: abs_less_iff)
  have "of_int (n div d) \<le> of_int n / of_int d + e" "of_int n / of_int d + e < of_int (n div d) + 1"
    using lo hi e unfolding frac by linarith+
  then show ?thesis by (simp add: floor_unique)
qed

lemma floor_integer_near:
  fixes k :: int and e :: rat
  assumes "\<bar>e\<bar> < 1"
  shows "\<lfloor>of_int k + e\<rfloor> = k \<or> \<lfloor>of_int k + e\<rfloor> = k - 1"
proof -
  have "- 1 < e" "e < 1" using assms by (simp_all add: abs_less_iff)
  then have "k - 1 \<le> \<lfloor>of_int k + e\<rfloor>" "\<lfloor>of_int k + e\<rfloor> < k + 1"
    by (simp_all add: le_floor_iff floor_less_iff)
  then show ?thesis by linarith
qed

text \<open>
  How far the code is from the exact formula, for a crawl of fewer than \<open>2^32\<close> links of
  which \<open>b \<le> t\<close> are broken: the scores agree unless the exact value
  \<open>(1 - b/t) * 100\<close> lies half-way between two integers, that is unless \<open>2t\<close> divides
  \<open>200 (t - b) + t\<close>; and then the code's score is the exact score or one less.
\<close>

lemma calculateHealthScore_vs_exact:
  assumes "0 < t" "b \<le> t" "t < 2 ^ 32"
  shows "\<not> 2 * int t dvd 200 * (int t - int b) + int t
           \<Longrightarrow> calculateHealthScore t b = healthScore_spec t b"
    and "calculateHealthScore t b = healthScore_spec t b
         \<or> calculateHealthScore t b = healthScore_spec t b - 1"
proof -
  define p where "p = fmul (fsub 1 (fdiv (of_nat b) (of_nat t))) 100"
  define y0 :: rat where "y0 = (1 - of_nat b / of_nat t) * 100"
  define e where "e = p - y0"
  define N where "N = 200 * (int t - int b) + int t"
  define D where "D = 2 * int t"
  have D: "0 < D" using assms(1) by (simp add: D_def)
  have tpos: "(0::rat) < of_nat t" using assms(1) by simp
  have half: "y0 + 1 / 2 = of_int N / of_int D"
    using tpos by (simp add: y0_def N_def D_def field_simps)
  have err: "\<bar>e\<bar> \<le> 512 * pow2 (- 53)"
    unfolding e_def p_def y0_def using assms(1,2) by (rule score_error)
  have small: "512 * pow2 (- 53) < 1 / (of_int D :: rat)"
  proof -
    have "int t < 2 ^ 32" using assms(3) by (metis of_nat_less_iff of_nat_numeral of_nat_power)
    then have "D < 2 ^ 33" by (simp add: D_def)
    then have "(of_int D :: rat) < of_int (2 ^ 33)" by (simp only: of_int_less_iff)
    then have "(of_int D :: rat) < 2 ^ 33" by simp
    moreover have "(0::rat) < of_int D" using D by simp
    ultimately have "1 / (2 ^ 33 :: rat) < 1 / of_int D"
      by (intro divide_strict_left_mono) simp_all
    moreover have "512 * pow2 (- 53) < 1 / (2 ^ 33 :: rat)" by (simp add: pow2_def)
    ultimately show ?thesis by linarith
  qed
  have e1: "\<bar>e\<bar> < 1 / of_int D" using err small by linarith
  have e2: "\<bar>e\<bar> < 1"
  proof -
    have "1 / (of_int D :: rat) \<le> 1" using D by simp
    with e1 show ?thesis by linarith
  qed
  have rp: "Math_round p = \<lfloor>of_int N / of_int D + e\<rfloor>"
  proof -
    have "p + 1 / 2 = (y0 + 1 / 2) + e" by (simp add: e_def)
    then have "p + 1 / 2 = of_int N / of_int D + e" by (simp only: half)
    then show ?thesis by (simp only: Math_round_def)
  qed
  have ry: "Math_round y0 = N div D"
    by (simp only: Math_round_def half floor_divide_of_int_eq)
  have code: "calculateHealthScore t b = max 0 (min 100 (Math_round p))"
    using assms(1) by (simp add: calculateHealthScore_def Let_def p_def)
  have spec: "healthScore_spec t b = max 0 (min 100 (Math_round y0))"
    using assms(1) by (simp add: healthScore_spec_def y0_def)
  have not_tie: "Math_round p = Math_round y0" if "\<not> D dvd N"
    using floor_fraction_stable [OF D that e1] by (simp only: rp ry)
  have tie: "Math_round p = Math_round y0 \<or> Math_round p = Math_round y0 - 1" if "D dvd N"
  proof -
    from that obtain k where k: "N = D * k" ..
    have "(of_int N :: rat) / of_int D = of_int k" using D by (simp add: k)
    moreover have "N div D = k" using D by (simp add: k)
    ultimately show ?thesis
      using floor_integer_near [OF e2, of k] by (simp only: rp ry)
  qed
  show "calculateHealthScore t b = healthScore_spec t b"
    if "\<not> 2 * int t dvd 200 * (int t - int b) + int t"
    using not_tie that by (simp add: code spec D_def N_def)
  have "Math_round p = Math_round y0 \<or> Math_round p = Math_round y0 - 1"
    using not_tie tie by blast
  then show "calculateHealthScore t b = healthScore_spec t b
         \<or> calculateHealthScore t b = healthScore_spec t b - 1"
    unfolding code spec by (auto simp: max_def min_def)
qed

text \<open>
  C2, as stated, fails. With 40 links of which 17 are broken the exact value of
  \<open>(1 - 17/40) * 100\<close> is 57.5, which rounds to 58; in double precision the product is
  57.49999999999999, and \<^verbatim>\<open>Math.round\<close> returns 57.
\<close>

theorem healthScore_exact_formula_counterexample:
  "calculateHealthScore 40 17 = 57 \<and> healthScore_spec 40 17 = 58"
  by code_simp

text \<open>
  C2, amended. With no links the score is 100 whatever the broken count; otherwise it is
  \<^verbatim>\<open>Math.round\<close> of the double-precision value of \<open>(1 - broken/total) * 100\<close> (each of the
  three operations rounded to binary64), clamped to \<open>[0,100]\<close>, and always lies in
  \<open>[0,100]\<close>. For a crawl of fewer than \<open>2^32\<close> links of which \<open>b \<le> t\<close> are broken this is
  the exactly computed \<open>round((1 - b/t) * 100)\<close> clamped to \<open>[0,100]\<close>, unless the exact value
  lies half-way between two integers, where it is that score or one less. The three
  examples of the specification hold: (10,1) gives 90, (10,10) gives 0, (3,1) gives 67.
\<close>

theorem calculateHealthScore_amended:
  assumes "0 < t" "b \<le> t" "t < 2 ^ 32"
  shows "calculateHealthScore 0 b' = 100
   \<and> calculateHealthScore (Suc t') b' =
       max 0 (min 100 (Math_round
         (fmul (fsub 1 (fdiv (of_nat b') (of_nat (Suc t')))) 100)))
   \<and> 0 \<le> calculateHealthScore t' b' \<and> calculateHealthScore t' b' \<le> 100
   \<and> (\<not> 2 * int t dvd 200 * (int t - int b) + int t
        \<longrightarrow> calculateHealthScore t b = healthScore_spec t b)
   \<and> (calculateHealthScore t b = healthScore_spec t b
        \<or> calculateHealthScore t b = healthScore_spec t b - 1)
   \<and> calculateHealthScore 10 1 = 90
   \<and> calculateHealthScore 10 10 = 0
   \<and> calculateHealthScore 3 1 = 67"
proof -
  have zero: "calculateHealthScore 0 b' = 100"
    by (simp add: calculateHealthScore_def)
  have pos: "calculateHealthScore (Suc t') b' =
       max 0 (min 100 (Math_round
         (fmul (fsub 1 (fdiv (of_nat b') (of_nat (Suc t')))) 100)))"
    unfolding calculateHealthScore_def Let_def by simp
  show ?thesis
    using zero pos calculateHealthScore_range [of t' b'] calculateHealthScore_10_1
      calculateHealthScore_10_10 calculateHealthScore_3_1
      calculateHealthScore_vs_exact [OF assms]
    by blast
qed

text \<open>Ten links, one broken: not a half-way value, and the code agrees with the exact formula.\<close>

theorem calculateHealthScore_amended_witness:
  "calculateHealthScore 10 1 = healthScore_spec 10 1
   \<and> (calculateHealthScore 10 1 = healthScore_spec 10 1
        \<or> calculateHealthScore 10 1 = healthScore_spec 10 1 - 1)"
proof -
  have h: "(0::nat) < 10" "(1::nat) \<le> 10" "(10::nat) < 2 ^ 32" by simp_all
  have nt: "\<not> 2 * int 10 dvd 200 * (int 10 - int 1) + int 10" by simp
  from calculateHealthScore_amended [OF h] nt show ?thesis by blast
qed

subsection \<open>Link text\<close>

lemma map_eq_fixed:
  assumes "\<And>c. r c \<in> set suf \<Longrightarrow> r c = c" "\<And>c. c \<in> set suf \<Longrightarrow> r c = c"
  shows "map r t = suf \<longleftrightarrow> t = suf"
proof
  assume h: "map r t = suf"
  have "map r t = t"
  proof (rule map_idI)
    fix x assume "x \<in> set t"
    then have "r x \<in> set suf" using h by auto
    then show "r x = x" by (rule assms(1))
  qed
  with h show "t = suf" by simp
next
  assume "t = suf"
  then show "map r t = suf" using assms(2) by (simp add: map_idI)
qed

lemma endsWith_replace:
  assumes "CHR ''-'' \<notin> set suf" "CHR ''_'' \<notin> set suf" "CHR '' '' \<notin> set suf"
  shows "endsWith suf (replace_separators s) = endsWith suf s"
proof -
  let ?r = "\<lambda>c. if c = CHR ''-'' \<or> c = CHR ''_'' then CHR '' '' else c"
  have "map ?r t = suf \<longleftrightarrow> t = suf" for t
    by (rule map_eq_fixed) (use assms in \<open>auto split: if_splits\<close>)
  then show ?thesis
    by (simp add: endsWith_def replace_separators_def drop_map)
qed

text \<open>The code replaces the separators before it strips the extension; the order is immaterial.\<close>

lemma strip_replace_commute:
  "strip_extension (replace_separators s) = replace_separators (strip_extension s)"
proof -
  have "endsWith ''.html'' (replace_separators s) = endsWith ''.html'' s"
       "endsWith ''.htm'' (replace_separators s) = endsWith ''.htm'' s"
       "endsWith ''.php'' (replace_separators s) = endsWith ''.php'' s"
    by (rule endsWith_replace; simp)+
  then show ?thesis
    by (simp add: strip_extension_def) (simp add: replace_separators_def take_map)
qed

lemma extractLinkText_examples:
  "extractLinkText (\<lambda>u. Some ''/about-us/our_team.html'') u = ''Our Team''"
  "extractLinkText (\<lambda>u. Some ''/'') u = ''Home''"
  "extractLinkText (\<lambda>u. Some ''/docs/FAQ.php'') u = ''FAQ''"
  "extractLinkText (\<lambda>u. Some ''/a--b/'') u = ''A  B''"
  by code_simp+

lemma label_spec_examples:
  "label_spec ''/about-us/our_team.html'' = ''Our Team''"
  "label_spec ''/'' = ''Home''"
  "label_spec ''/docs/FAQ.php'' = ''FAQ''"
  "label_spec ''/a--b/'' = ''A  B''"
  by code_simp+

lemma split_spec_Nil: "split_spec sep [] = [[]]"
  by (simp add: split_spec.simps)

lemma split_spec_Cons:
  "split_spec sep (c # cs) =
     (if c = sep then [] # split_spec sep cs
      else (case split_spec sep cs of [] \<Rightarrow> [[c]] | w # ws \<Rightarrow> (c # w) # ws))"
proof (cases "c = sep")
  case True
  then show ?thesis by (subst split_spec.simps) simp
next
  case False
  show ?thesis
  proof (cases "dropWhile (\<lambda>c. c \<noteq> sep) cs")
    case Nil
    show ?thesis
      by (simp add: False Nil split_spec.simps [of sep "c # cs"] split_spec.simps [of sep cs])
  next
    case (Cons d rest)
    show ?thesis
      by (simp add: False Cons split_spec.simps [of sep "c # cs"] split_spec.simps [of sep cs])
  qed
qed

lemma split_on_spec: "split_on sep s = split_spec sep s"
  by (induction s) (simp_all add: split_spec_Nil split_spec_Cons)

lemma lastSegment_spec: "lastSegment pathname = lastSegment_spec pathname"
proof -
  have "(if xs = [] then d else last xs) = (case rev xs of [] \<Rightarrow> d | x # ys \<Rightarrow> x)"
    for xs :: "string list" and d
    by (cases xs rule: rev_cases) simp_all
  then show ?thesis
    by (simp add: lastSegment_def lastSegment_spec_def Let_def split_on_spec)
qed

lemma endsWith_suffix: "endsWith suf s = suffix suf s"
proof
  assume "endsWith suf s"
  then have "s = take (length s - length suf) s @ suf"
    by (metis append_take_drop_id endsWith_def)
  then show "suffix suf s" by (rule suffixI)
next
  assume "suffix suf s"
  then obtain zs where "s = zs @ suf" by (auto simp: suffix_def)
  then show "endsWith suf s" by (simp add: endsWith_def)
qed

lemma strip_extension_spec: "strip_extension s = strip_extension_spec s"
proof -
  have one: "\<not> (suffix a s \<and> suffix b s)" if "\<not> suffix a b" "\<not> suffix b a" for a b
    using that suffix_same_cases by blast
  have "\<not> (suffix ''.html'' s \<and> suffix ''.htm'' s)"
       "\<not> (suffix ''.html'' s \<and> suffix ''.php'' s)"
       "\<not> (suffix ''.htm'' s \<and> suffix ''.php'' s)"
    by (rule one; simp add: suffix_to_prefix)+
  then show ?thesis
    by (auto simp: strip_extension_def strip_extension_spec_def endsWith_suffix
        eval_nat_numeral)
qed

lemma replace_separators_spec: "replace_separators s = replace_separators_spec s"
  by (simp add: replace_separators_def replace_separators_spec_def)

lemma toUpperCase_char_spec: "toUpperCase_char c = upper_spec c"
  by (cases c) (simp add: toUpperCase_char_def upper_spec_def Let_def char_of_eq_iff)

lemma split_on_nonempty: "split_on sep s \<noteq> []"
  by (induction s) (auto split: list.splits)

lemma join_Cons_Cons: "join sep ((c # w) # ws) = c # join sep (w # ws)"
  by (cases ws) simp_all

lemma join_Nil_Cons: "ws \<noteq> [] \<Longrightarrow> join sep ([] # ws) = sep @ join sep ws"
  by (cases ws) simp_all

lemma titleCase_words:
  "join '' '' (map capitalize (split_on CHR '' '' s)) = titleCase_from True s
   \<and> join '' '' (case split_on CHR '' '' s of [] \<Rightarrow> [] | w # ws \<Rightarrow> w # map capitalize ws)
       = titleCase_from False s"
proof (induction s)
  case Nil
  show ?case by (simp add: capitalize_def)
next
  case (Cons c cs)
  obtain w ws where sp: "split_on CHR '' '' cs = w # ws"
    using split_on_nonempty [of "CHR '' ''" cs] by (cases "split_on CHR '' '' cs") auto
  have cap: "capitalize [] = []" "capitalize (c # w) = upper_spec c # w"
    by (simp_all add: capitalize_def toUpperCase_char_spec)
  from Cons.IH sp have
    ih1: "join '' '' (capitalize w # map capitalize ws) = titleCase_from True cs" and
    ih2: "join '' '' (w # map capitalize ws) = titleCase_from False cs"
    by simp_all
  show ?case
  proof (cases "c = CHR '' ''")
    case True
    have "join '' '' ([] # capitalize w # map capitalize ws)
            = '' '' @ join '' '' (capitalize w # map capitalize ws)"
      by (rule join_Nil_Cons) simp
    with True sp ih1 show ?thesis by (simp add: cap)
  next
    case False
    with sp ih2 show ?thesis
      by (simp add: cap join_Cons_Cons)
  qed
qed

text \<open>
  C7. For every URL string: when the URL parses, the link text is the label the
  specification describes, computed from the URL's path by the specification's own
  derivation (\<open>label_spec\<close>: split on \<open>/\<close>, empty segments dropped, last segment or \<open>Home\<close>,
  trailing \<open>.html\<close>/\<open>.htm\<close>/\<open>.php\<close> stripped, \<open>-\<close> and \<open>_\<close> replaced by spaces, the first letter
  of each space-separated word upper-cased); when parsing fails, it is the literal \<open>Link\<close>.
  The function is total: it never throws.
\<close>

theorem extractLinkText_label:
  "extractLinkText parse u =
     (case parse u of
        None \<Rightarrow> ''Link''
      | Some pathname \<Rightarrow> label_spec pathname)"
proof (cases "parse u")
  case None
  then show ?thesis by (simp add: extractLinkText_def)
next
  case (Some pathname)
  have "extractLinkText parse u =
          titleCase_from True (strip_extension (replace_separators (lastSegment pathname)))"
    using Some titleCase_words by (simp add: extractLinkText_def)
  also have "strip_extension (replace_separators (lastSegment pathname))
               = replace_separators (strip_extension (lastSegment pathname))"
    by (rule strip_replace_commute)
  also have "\<dots> = replace_separators_spec (strip_extension_spec (lastSegment_spec pathname))"
    by (simp only: lastSegment_spec strip_extension_spec replace_separators_spec)
  finally show ?thesis using Some by (simp add: label_spec_def titleCase_spec_def)
qed

subsection \<open>The orchestrator\<close>

text \<open>The test environment, field by field.\<close>

lemma test_env_simps:
  "now (test_env ls snap) = int"
  "URL_pathname (test_env ls snap) = test_pathname"
  "encodeURIComponent (test_env ls snap) = Inr"
  "db_createScanResult (test_env ls snap) wid ty uid w =
     (Inr \<lparr>scan_id = 7, scan_website_id = wid, scan_type = ty, scan_status = ''running''\<rparr>, w)"
  "check (test_env ls snap) opts w = (Inr \<lparr>passed = False, links = ls\<rparr>, w)"
  "analyzeContext (test_env ls snap) inp w = (Inr (test_analysis inp), w)"
  "fetch (test_env ls snap) u w =
     (Inr \<lparr>ok = True, json = Inr \<lparr>archived_snapshots = Some \<lparr>closest = Some snap\<rparr>\<rparr>\<rparr>, w)"
  "db_createBrokenLink (test_env ls snap) sid u st fo lt hc w =
     (if u = ''https://example.org/no-insert'' then (Inl (Error ''insert failed''), w)
      else (Inr \<lparr>bl_id = length u, bl_scan_id = sid, bl_url = u\<rparr>, w))"
  "db_updateBrokenLinkWithAI (test_env ls snap) lid a f p c w =
     (Inr \<lparr>bl_id = lid, bl_scan_id = 7, bl_url = []\<rparr>, w)"
  "db_completeScanResult (test_env ls snap) sid t b sc w =
     (Inr \<lparr>scan_id = sid, scan_website_id = 1, scan_type = ''manual'',
           scan_status = ''completed''\<rparr>, w)"
  "db_markFailed (test_env ls snap) sid m w = (Inr (), w)"
  "setTimeout (test_env ls snap) ms w = w + ms"
  by (simp_all add: test_env_def)

text \<open>Every operation only appends to the trace.\<close>

lemma perform_trace:
  "perform c f s = (r, s') \<Longrightarrow> trace s' = trace s @ [(c, outcome_of r)]"
  by (auto simp: perform_def split: prod.splits)

lemma sleep_trace: "trace (sleep env ms s) = trace s @ [(SetTimeout ms, Returned)]"
  by (simp add: sleep_def)

lemma checkWaybackMachine_trace:
  assumes "checkWaybackMachine env u s = (r, s')"
  shows "\<exists>evs. trace s' = trace s @ evs \<and> list_all link_event evs"
proof (cases "encodeURIComponent env u")
  case (Inl e)
  then have "s' = s"
    using assms by (simp add: checkWaybackMachine_def checkWaybackMachine_try_def)
  then show ?thesis by simp
next
  case (Inr enc)
  obtain r1 s1 where p: "perform (Fetch (wayback_api @ enc)) (fetch env (wayback_api @ enc)) s = (r1, s1)"
    by (cases "perform (Fetch (wayback_api @ enc)) (fetch env (wayback_api @ enc)) s")
  have "s' = s1"
    using assms Inr p
    by (auto simp: checkWaybackMachine_def checkWaybackMachine_try_def Let_def
        split: sum.splits if_splits)
  moreover have "trace s1 = trace s @ [(Fetch (wayback_api @ enc), outcome_of r1)]"
    using p by (rule perform_trace)
  ultimately show ?thesis by (simp add: link_event_def)
qed

lemma addWayback_trace:
  assumes "addWayback env cfg l a s = (r, s')"
  shows "\<exists>evs. trace s' = trace s @ evs \<and> list_all link_event evs"
proof (cases "includeWayback cfg")
  case False
  then have "s' = s" using assms by (simp add: addWayback_def)
  then show ?thesis by simp
next
  case True
  obtain r1 s1 where c: "checkWaybackMachine env (link_url l) s = (r1, s1)"
    by (cases "checkWaybackMachine env (link_url l) s")
  have "s' = s1"
    using assms True c by (auto simp: addWayback_def split: sum.splits option.splits if_splits)
  then show ?thesis using checkWaybackMachine_trace [OF c] by simp
qed

text \<open>The five ways through the per-link \<^verbatim>\<open>try\<close> block.\<close>

lemma processLink_cases:
  assumes "processLink env cfg options sid n i l s = (r, s')"
  obtains
    (analyze_threw) e where
      "perform (AnalyzeContext (aiInput_of env options l))
         (analyzeContext env (aiInput_of env options l)) s = (Inl e, s')"
      "r = Inl e"
  | (wayback_threw) a0 s1 e where
      "perform (AnalyzeContext (aiInput_of env options l))
         (analyzeContext env (aiInput_of env options l)) s = (Inr a0, s1)"
      "addWayback env cfg l a0 s1 = (Inl e, s')"
      "r = Inl e"
  | (create_threw) a0 s1 a s2 e where
      "perform (AnalyzeContext (aiInput_of env options l))
         (analyzeContext env (aiInput_of env options l)) s = (Inr a0, s1)"
      "addWayback env cfg l a0 s1 = (Inr a, s2)"
      "perform
         (CreateBrokenLink sid (link_url l) (status_or_null l) (parent_or_path options l)
            (ctx_linkText (extractContext env l)) (ctx_htmlContext (extractContext env l)))
         (db_createBrokenLink env sid (link_url l) (status_or_null l) (parent_or_path options l)
            (ctx_linkText (extractContext env l)) (ctx_htmlContext (extractContext env l)))
         s2 = (Inl e, s')"
      "r = Inl e"
  | (update_threw) a0 s1 a s2 rec s3 e where
      "perform (AnalyzeContext (aiInput_of env options l))
         (analyzeContext env (aiInput_of env options l)) s = (Inr a0, s1)"
      "addWayback env cfg l a0 s1 = (Inr a, s2)"
      "perform
         (CreateBrokenLink sid (link_url l) (status_or_null l) (parent_or_path options l)
            (ctx_linkText (extractContext env l)) (ctx_htmlContext (extractContext env l)))
         (db_createBrokenLink env sid (link_url l) (status_or_null l) (parent_or_path options l)
            (ctx_linkText (extractContext env l)) (ctx_htmlContext (extractContext env l)))
         s2 = (Inr rec, s3)"
      "perform
         (UpdateBrokenLinkWithAI (bl_id rec) (aiAnalysisForDb a) (suggestedFixesForDb a)
            (priorityScore a) (importance a = critical))
         (db_updateBrokenLinkWithAI env (bl_id rec) (aiAnalysisForDb a) (suggestedFixesForDb a)
            (priorityScore a) (importance a = critical))
         s3 = (Inl e, s')"
      "r = Inl e"
  | (pushed) a0 s1 a s2 rec s3 upd s4 where
      "perform (AnalyzeContext (aiInput_of env options l))
         (analyzeContext env (aiInput_of env options l)) s = (Inr a0, s1)"
      "addWayback env cfg l a0 s1 = (Inr a, s2)"
      "perform
         (CreateBrokenLink sid (link_url l) (status_or_null l) (parent_or_path options l)
            (ctx_linkText (extractContext env l)) (ctx_htmlContext (extractContext env l)))
         (db_createBrokenLink env sid (link_url l) (status_or_null l) (parent_or_path options l)
            (ctx_linkText (extractContext env l)) (ctx_htmlContext (extractContext env l)))
         s2 = (Inr rec, s3)"
      "perform
         (UpdateBrokenLinkWithAI (bl_id rec) (aiAnalysisForDb a) (suggestedFixesForDb a)
            (priorityScore a) (importance a = critical))
         (db_updateBrokenLinkWithAI env (bl_id rec) (aiAnalysisForDb a) (suggestedFixesForDb a)
            (priorityScore a) (importance a = critical))
         s3 = (Inr upd, s4)"
      "r = Inr (finding_of env options l a (bl_id rec))"
      "s' = (if int i < int n - 1 then sleep env 1000 s4 else s4)"
  using assms unfolding processLink_def Let_def finding_of_def
  by (simp split: prod.splits sum.splits)

lemma processLink_trace:
  assumes "processLink env cfg options sid n i l s = (r, s')"
  shows "\<exists>evs. trace s' = trace s @ evs \<and> list_all link_event evs"
  using assms
proof (cases rule: processLink_cases)
  case (analyze_threw e)
  then show ?thesis by (auto dest!: perform_trace simp: link_event_def)
next
  case (wayback_threw a0 s1 e)
  then show ?thesis
    by (auto dest!: perform_trace addWayback_trace simp: link_event_def)
next
  case (create_threw a0 s1 a s2 e)
  then show ?thesis
    by (auto dest!: perform_trace addWayback_trace simp: link_event_def)
next
  case (update_threw a0 s1 a s2 rec s3 e)
  then show ?thesis
    by (auto dest!: perform_trace addWayback_trace simp: link_event_def)
next
  case (pushed a0 s1 a s2 rec s3 upd s4)
  then show ?thesis
    by (auto dest!: perform_trace addWayback_trace simp: link_event_def sleep_trace)
qed

lemma processLinks_trace:
  "processLinks env cfg options sid n i ls acc s = (found, s') \<Longrightarrow>
   \<exists>evs. trace s' = trace s @ evs \<and> list_all link_event evs"
proof (induction ls arbitrary: i acc s)
  case Nil
  then show ?case by simp
next
  case (Cons l ls)
  obtain r s1 where step: "processLink env cfg options sid n i l s = (r, s1)"
    by (cases "processLink env cfg options sid n i l s")
  from processLink_trace [OF step] obtain evs1
    where e1: "trace s1 = trace s @ evs1" "list_all link_event evs1" by blast
  have "\<exists>acc'. processLinks env cfg options sid n (Suc i) ls acc' s1 = (found, s')"
    using Cons.prems step by (auto split: sum.splits)
  then obtain acc' where "processLinks env cfg options sid n (Suc i) ls acc' s1 = (found, s')" ..
  from Cons.IH [OF this] obtain evs2
    where e2: "trace s' = trace s1 @ evs2" "list_all link_event evs2" by blast
  from e1 e2 show ?case by auto
qed

lemma link_event_not_terminal: "link_event e \<Longrightarrow> \<not> terminal_call e"
  by (cases e) (auto simp: link_event_def terminal_call_def split: effect.splits)

lemma list_all_link_event_filter:
  "list_all link_event evs \<Longrightarrow> filter terminal_call evs = []"
  by (induction evs) (auto dest: link_event_not_terminal)

lemma scan_try_cases:
  assumes "scan_try env cfg options t0 scan s = (r, s')"
  obtains
    (crawl_threw) e where
      "perform (Check options) (check env options) s = (Inl e, s')"
      "r = Inl e"
  | (complete_threw) crawl s1 found s2 e where
      "perform (Check options) (check env options) s = (Inr crawl, s1)"
      "processLinks env cfg options (scan_id scan) (length (brokenLinks_of crawl)) 0
         (brokenLinks_of crawl) [] s1 = (found, s2)"
      "perform
         (CompleteScanResult (scan_id scan) (length (links crawl))
            (length (brokenLinks_of crawl))
            (calculateHealthScore (length (links crawl)) (length (brokenLinks_of crawl))))
         (db_completeScanResult env (scan_id scan) (length (links crawl))
            (length (brokenLinks_of crawl))
            (calculateHealthScore (length (links crawl)) (length (brokenLinks_of crawl))))
         s2 = (Inl e, s')"
      "r = Inl e"
  | (completed) crawl s1 found s2 rec where
      "perform (Check options) (check env options) s = (Inr crawl, s1)"
      "processLinks env cfg options (scan_id scan) (length (brokenLinks_of crawl)) 0
         (brokenLinks_of crawl) [] s1 = (found, s2)"
      "perform
         (CompleteScanResult (scan_id scan) (length (links crawl))
            (length (brokenLinks_of crawl))
            (calculateHealthScore (length (links crawl)) (length (brokenLinks_of crawl))))
         (db_completeScanResult env (scan_id scan) (length (links crawl))
            (length (brokenLinks_of crawl))
            (calculateHealthScore (length (links crawl)) (length (brokenLinks_of crawl))))
         s2 = (Inr rec, s')"
      "r = Inr \<lparr>res_passed = passed crawl,
                 res_links = links crawl,
                 scanId = scan_id scan,
                 res_websiteId = websiteId cfg,
                 totalLinks = length (links crawl),
                 brokenLinksCount = length (brokenLinks_of crawl),
                 healthScore =
                   calculateHealthScore (length (links crawl)) (length (brokenLinks_of crawl)),
                 brokenLinksWithAI = found,
                 scanDuration = now env (world s') - t0\<rparr>"
proof (cases "perform (Check options) (check env options) s")
  case (Pair r1 s1)
  show ?thesis
  proof (cases r1)
    case (Inl e)
    with Pair assms show ?thesis
      by (intro crawl_threw [of e]) (simp_all add: scan_try_def)
  next
    case (Inr crawl)
    define bl where "bl = brokenLinks_of crawl"
    obtain found s2 where loop:
      "processLinks env cfg options (scan_id scan) (length bl) 0 bl [] s1 = (found, s2)"
      by (cases "processLinks env cfg options (scan_id scan) (length bl) 0 bl [] s1")
    have loop': "(if length bl > 0
                  then processLinks env cfg options (scan_id scan) (length bl) 0 bl [] s1
                  else ([], s1)) = (found, s2)"
      using loop by (cases bl) auto
    obtain r3 s3 where fin:
      "perform
         (CompleteScanResult (scan_id scan) (length (links crawl)) (length bl)
            (calculateHealthScore (length (links crawl)) (length bl)))
         (db_completeScanResult env (scan_id scan) (length (links crawl)) (length bl)
            (calculateHealthScore (length (links crawl)) (length bl)))
         s2 = (r3, s3)"
      by (cases "perform
         (CompleteScanResult (scan_id scan) (length (links crawl)) (length bl)
            (calculateHealthScore (length (links crawl)) (length bl)))
         (db_completeScanResult env (scan_id scan) (length (links crawl)) (length bl)
            (calculateHealthScore (length (links crawl)) (length bl)))
         s2")
    show ?thesis
    proof (cases r3)
      case (Inl e)
      have "r = Inl e \<and> s' = s3"
        using assms Pair Inr loop' fin Inl
        by (simp add: scan_try_def Let_def bl_def [symmetric])
      then show ?thesis
        using Pair \<open>r1 = Inr crawl\<close> loop fin Inl
        by (intro complete_threw [of crawl s1 found s2 e]) (auto simp: bl_def)
    next
      case (Inr rec) note r3 = this
      have "r = Inr \<lparr>res_passed = passed crawl,
                 res_links = links crawl,
                 scanId = scan_id scan,
                 res_websiteId = websiteId cfg,
                 totalLinks = length (links crawl),
                 brokenLinksCount = length bl,
                 healthScore = calculateHealthScore (length (links crawl)) (length bl),
                 brokenLinksWithAI = found,
                 scanDuration = now env (world s3) - t0\<rparr> \<and> s' = s3"
        using assms Pair \<open>r1 = Inr crawl\<close> loop' fin r3
        by (auto simp add: scan_try_def Let_def bl_def [symmetric])
      then have rr: "r = Inr \<lparr>res_passed = passed crawl,
                 res_links = links crawl,
                 scanId = scan_id scan,
                 res_websiteId = websiteId cfg,
                 totalLinks = length (links crawl),
                 brokenLinksCount = length bl,
                 healthScore = calculateHealthScore (length (links crawl)) (length bl),
                 brokenLinksWithAI = found,
                 scanDuration = now env (world s') - t0\<rparr>" and ss: "s3 = s'"
        by blast+
      show ?thesis
      proof (rule completed [of crawl s1 found s2 rec])
        show "perform (Check options) (check env options) s = (Inr crawl, s1)"
          using Pair \<open>r1 = Inr crawl\<close> by simp
        show "processLinks env cfg options (scan_id scan) (length (brokenLinks_of crawl)) 0
                (brokenLinks_of crawl) [] s1 = (found, s2)"
          using loop by (simp add: bl_def)
        show "perform
         (CompleteScanResult (scan_id scan) (length (links crawl))
            (length (brokenLinks_of crawl))
            (calculateHealthScore (length (links crawl)) (length (brokenLinks_of crawl))))
         (db_completeScanResult env (scan_id scan) (length (links crawl))
            (length (brokenLinks_of crawl))
            (calculateHealthScore (length (links crawl)) (length (brokenLinks_of crawl))))
         s2 = (Inr rec, s')"
          using fin r3 ss by (simp add: bl_def)
        show "r = Inr \<lparr>res_passed = passed crawl,
                 res_links = links crawl,
                 scanId = scan_id scan,
                 res_websiteId = websiteId cfg,
                 totalLinks = length (links crawl),
                 brokenLinksCount = length (brokenLinks_of crawl),
                 healthScore =
                   calculateHealthScore (length (links crawl)) (length (brokenLinks_of crawl)),
                 brokenLinksWithAI = found,
                 scanDuration = now env (world s') - t0\<rparr>"
          using rr by (simp add: bl_def)
      qed
    qed
  qed
qed

lemma checkWithIntelligence_cases:
  assumes "checkWithIntelligence env cfg options s = (r, s')"
  obtains
    (create_threw) e where
      "perform (CreateScanResult (websiteId cfg) (scanType_of cfg) (userId cfg))
         (db_createScanResult env (websiteId cfg) (scanType_of cfg) (userId cfg)) s = (Inl e, s')"
      "r = Inl e"
  | (succeeded) scan s1 res where
      "perform (CreateScanResult (websiteId cfg) (scanType_of cfg) (userId cfg))
         (db_createScanResult env (websiteId cfg) (scanType_of cfg) (userId cfg)) s = (Inr scan, s1)"
      "scan_try env cfg options (now env (world s)) scan s1 = (Inr res, s')"
      "r = Inr res"
  | (failed) scan s1 err s2 r2 where
      "perform (CreateScanResult (websiteId cfg) (scanType_of cfg) (userId cfg))
         (db_createScanResult env (websiteId cfg) (scanType_of cfg) (userId cfg)) s = (Inr scan, s1)"
      "scan_try env cfg options (now env (world s)) scan s1 = (Inl err, s2)"
      "perform (MarkScanFailed (scan_id scan) (message err))
         (db_markFailed env (scan_id scan) (message err)) s2 = (r2, s')"
      "r = (case r2 of Inl e2 \<Rightarrow> Inl e2 | Inr u \<Rightarrow> Inl err)"
  using assms unfolding checkWithIntelligence_def Let_def
  by (auto split: prod.splits sum.splits)

lemma scan_try_trace_threw:
  assumes "scan_try env cfg options t0 scan s = (Inl e, s')"
  shows "\<exists>evs. filter terminal_call evs = []
           \<and> (trace s' = trace s @ evs
              \<or> (\<exists>t b sc. trace s' =
                    trace s @ evs @ [(CompleteScanResult (scan_id scan) t b sc, Threw e)]))"
  using assms
proof (cases rule: scan_try_cases)
  case (crawl_threw e')
  then have "trace s' = trace s @ [(Check options, Threw e)]"
    by (auto dest!: perform_trace simp: outcome_of_def)
  moreover have "filter terminal_call [(Check options, Threw e)] = []"
    by (simp add: terminal_call_def)
  ultimately show ?thesis by blast
next
  case (complete_threw crawl s1 found s2 e')
  from processLinks_trace [OF complete_threw(2)] obtain evs
    where evs: "trace s2 = trace s1 @ evs" "list_all link_event evs" by blast
  have e': "e' = e" using complete_threw(4) by simp
  have "trace s1 = trace s @ [(Check options, Returned)]"
    using perform_trace [OF complete_threw(1)] by (simp add: outcome_of_def)
  moreover have "trace s' = trace s2 @
      [(CompleteScanResult (scan_id scan) (length (links crawl)) (length (brokenLinks_of crawl))
          (calculateHealthScore (length (links crawl)) (length (brokenLinks_of crawl))),
        Threw e)]"
    using perform_trace [OF complete_threw(3)] by (simp add: outcome_of_def e')
  moreover have "filter terminal_call ((Check options, Returned) # evs) = []"
    using list_all_link_event_filter [OF evs(2)] by (simp add: terminal_call_def)
  ultimately have "\<exists>t b sc. trace s' =
      trace s @ ((Check options, Returned) # evs)
        @ [(CompleteScanResult (scan_id scan) t b sc, Threw e)]"
    using evs(1) by simp
  with \<open>filter terminal_call ((Check options, Returned) # evs) = []\<close> show ?thesis by blast
next
  case (completed crawl s1 found s2 rec)
  then show ?thesis by simp
qed

lemma scan_try_trace_returned:
  assumes "scan_try env cfg options t0 scan s = (Inr res, s')"
  shows "\<exists>evs. trace s' = trace s @ evs
           @ [(CompleteScanResult (scan_id scan) (totalLinks res) (brokenLinksCount res)
                 (healthScore res), Returned)]
         \<and> filter terminal_call evs = []"
  using assms
proof (cases rule: scan_try_cases)
  case (crawl_threw e')
  then show ?thesis by simp
next
  case (complete_threw crawl s1 found s2 e')
  then show ?thesis by simp
next
  case (completed crawl s1 found s2 rec)
  from processLinks_trace [OF completed(2)] obtain evs
    where "trace s2 = trace s1 @ evs" "list_all link_event evs" by blast
  with completed show ?thesis
    by (auto dest!: perform_trace
        simp: terminal_call_def outcome_of_def list_all_link_event_filter)
qed

text \<open>
  C3, as stated, fails. One broken link; the connection is lost while
  \<^verbatim>\<open>completeScanResult\<close> waits for the reply, after the database has applied the update.
  The call throws inside the \<^verbatim>\<open>try\<close> block, and the \<^verbatim>\<open>catch\<close> clause sends the update to
  \<open>failed\<close> for the same scan: the record the gateway had set to \<open>completed\<close> is then set to
  \<open>failed\<close>.
\<close>

theorem completed_then_failed_counterexample:
  "fst (run (reply_lost_env one_link) (test_cfg False) test_options [])
     = Inl (Error ''Connection terminated unexpectedly'')
   \<and> filter terminal_call
        (trace (snd (run (reply_lost_env one_link) (test_cfg False) test_options [])))
     = [(CompleteScanResult 1 1 1 0, Threw (Error ''Connection terminated unexpectedly'')),
        (MarkScanFailed 1 ''Connection terminated unexpectedly'', Returned)]
   \<and> recorded_states
        (world (snd (run (reply_lost_env one_link) (test_cfg False) test_options []))) 1
     = [''running'', ''completed'', ''failed'']"
  by code_simp

text \<open>
  C3, amended. In every run of \<^verbatim>\<open>checkWithIntelligence\<close>, whatever the collaborators do, the
  calls that write a terminal state come last and are one of: none (the scan record could
  not be created); one \<^verbatim>\<open>completeScanResult\<close> that returned, and then the scan returns its
  result; one \<^verbatim>\<open>completeScanResult\<close> that threw, followed by the update to \<open>failed\<close> of the
  same scan with the thrown error's message; or the update to \<open>failed\<close> alone. In the last
  three the scan throws. So once \<^verbatim>\<open>completeScanResult\<close> has returned the scan is never
  marked failed, and the update to \<open>failed\<close> is never followed by a completion.
\<close>

theorem terminal_calls_are_final:
  "\<exists>pre. filter terminal_call pre = []
     \<and> ((trace (snd (run env cfg options w)) = pre
          \<and> (\<exists>e. fst (run env cfg options w) = Inl e))
        \<or> (\<exists>sid t b sc res.
              trace (snd (run env cfg options w)) = pre @ [(CompleteScanResult sid t b sc, Returned)]
              \<and> fst (run env cfg options w) = Inr res)
        \<or> (\<exists>sid t b sc e out.
              trace (snd (run env cfg options w))
                = pre @ [(CompleteScanResult sid t b sc, Threw e),
                         (MarkScanFailed sid (message e), out)]
              \<and> (\<exists>e'. fst (run env cfg options w) = Inl e'))
        \<or> (\<exists>sid m out.
              trace (snd (run env cfg options w)) = pre @ [(MarkScanFailed sid m, out)]
              \<and> (\<exists>e. fst (run env cfg options w) = Inl e)))"
proof -
  obtain r s' where run: "checkWithIntelligence env cfg options \<lparr>world = w, trace = []\<rparr> = (r, s')"
    by (cases "checkWithIntelligence env cfg options \<lparr>world = w, trace = []\<rparr>")
  let ?create = "(CreateScanResult (websiteId cfg) (scanType_of cfg) (userId cfg), Returned)"
  have c0: "\<not> terminal_call ?create" by (simp add: terminal_call_def)
  from run have
    "\<exists>pre. filter terminal_call pre = []
     \<and> ((trace s' = pre \<and> (\<exists>e. r = Inl e))
        \<or> (\<exists>sid t b sc res.
              trace s' = pre @ [(CompleteScanResult sid t b sc, Returned)] \<and> r = Inr res)
        \<or> (\<exists>sid t b sc e out.
              trace s' = pre @ [(CompleteScanResult sid t b sc, Threw e),
                                (MarkScanFailed sid (message e), out)]
              \<and> (\<exists>e'. r = Inl e'))
        \<or> (\<exists>sid m out. trace s' = pre @ [(MarkScanFailed sid m, out)] \<and> (\<exists>e. r = Inl e)))"
  proof (cases rule: checkWithIntelligence_cases)
    case (create_threw e)
    have "trace s' = [(CreateScanResult (websiteId cfg) (scanType_of cfg) (userId cfg), Threw e)]"
      using perform_trace [OF create_threw(1)] by (simp add: outcome_of_def)
    moreover have "filter terminal_call
        [(CreateScanResult (websiteId cfg) (scanType_of cfg) (userId cfg), Threw e)] = []"
      by (simp add: terminal_call_def)
    ultimately show ?thesis using create_threw(2) by blast
  next
    case (succeeded scan s1 res)
    from scan_try_trace_returned [OF succeeded(2)] obtain evs where evs:
      "trace s' = trace s1 @ evs
           @ [(CompleteScanResult (scan_id scan) (totalLinks res) (brokenLinksCount res)
                 (healthScore res), Returned)]"
      "filter terminal_call evs = []" by blast
    have s1: "trace s1 = [?create]"
      using perform_trace [OF succeeded(1)] by (simp add: outcome_of_def)
    have "trace s' = (?create # evs)
           @ [(CompleteScanResult (scan_id scan) (totalLinks res) (brokenLinksCount res)
                 (healthScore res), Returned)]"
      using evs(1) s1 by simp
    moreover have "filter terminal_call (?create # evs) = []"
      using evs(2) c0 by simp
    ultimately show ?thesis using succeeded(3) by blast
  next
    case (failed scan s1 err s2 r2)
    have s1: "trace s1 = [?create]"
      using perform_trace [OF failed(1)] by (simp add: outcome_of_def)
    have last: "trace s' = trace s2 @ [(MarkScanFailed (scan_id scan) (message err), outcome_of r2)]"
      using failed(3) by (rule perform_trace)
    have res: "\<exists>e. r = Inl e" using failed(4) by (cases r2) simp_all
    from scan_try_trace_threw [OF failed(2)] obtain evs where evs:
      "filter terminal_call evs = []"
      "trace s2 = trace s1 @ evs
       \<or> (\<exists>t b sc. trace s2 =
             trace s1 @ evs @ [(CompleteScanResult (scan_id scan) t b sc, Threw err)])"
      by blast
    have pre: "filter terminal_call (?create # evs) = []" using evs(1) c0 by simp
    from evs(2) show ?thesis
    proof
      assume "trace s2 = trace s1 @ evs"
      then have "trace s' = (?create # evs)
          @ [(MarkScanFailed (scan_id scan) (message err), outcome_of r2)]"
        using last s1 by simp
      with pre res show ?thesis by blast
    next
      assume "\<exists>t b sc. trace s2 =
             trace s1 @ evs @ [(CompleteScanResult (scan_id scan) t b sc, Threw err)]"
      then obtain t b sc where
        "trace s2 = trace s1 @ evs @ [(CompleteScanResult (scan_id scan) t b sc, Threw err)]"
        by blast
      then have "trace s' = (?create # evs)
          @ [(CompleteScanResult (scan_id scan) t b sc, Threw err),
             (MarkScanFailed (scan_id scan) (message err), outcome_of r2)]"
        using last s1 by simp
      with pre res show ?thesis by blast
    qed
  qed
  then show ?thesis by (simp add: run_def run)
qed

lemma perform_world:
  "perform c f s = (r, s') \<Longrightarrow> f (world s) = (r, world s')"
  by (auto simp: perform_def split: prod.splits)

lemma processLink_describes:
  assumes "processLink env cfg options sid n i l s = (Inr f, s')"
  shows "describes env options l f"
  using assms
  by (cases rule: processLink_cases)
    (simp_all add: finding_of_def describes_def extractContext_def)

lemma processLinks_findings:
  assumes "\<forall>l\<in>set ls. \<forall>i s. isl (fst (processLink env cfg options sid n i l s)) = fails l"
    and "processLinks env cfg options sid n i ls acc s = (found, s')"
  shows "\<exists>new. found = acc @ new
           \<and> list_all2 (describes env options) (filter (\<lambda>l. \<not> fails l) ls) new"
  using assms
proof (induction ls arbitrary: i acc s)
  case Nil
  then show ?case by simp
next
  case (Cons l ls)
  obtain r s1 where step: "processLink env cfg options sid n i l s = (r, s1)"
    by (cases "processLink env cfg options sid n i l s")
  have fl: "isl r = fails l"
    using Cons.prems(1) step by (metis fst_conv list.set_intros(1))
  have rest: "\<forall>l\<in>set ls. \<forall>i s. isl (fst (processLink env cfg options sid n i l s)) = fails l"
    using Cons.prems(1) by simp
  show ?case
  proof (cases r)
    case (Inl e)
    then have "processLinks env cfg options sid n (Suc i) ls acc s1 = (found, s')"
      using Cons.prems(2) step by simp
    from Cons.IH [OF rest this] Inl fl show ?thesis by simp
  next
    case (Inr f)
    then have "processLinks env cfg options sid n (Suc i) ls (acc @ [f]) s1 = (found, s')"
      using Cons.prems(2) step by simp
    from Cons.IH [OF rest this] obtain new where
      "found = (acc @ [f]) @ new"
      "list_all2 (describes env options) (filter (\<lambda>l. \<not> fails l) ls) new" by blast
    moreover have "describes env options l f"
      using step Inr by (auto intro: processLink_describes)
    ultimately show ?thesis using Inr fl by simp
  qed
qed


lemma length_link_outcomes:
  "length (link_outcomes env cfg options sid n i ls s) = length ls"
  by (induction ls arbitrary: i s) (auto split: prod.splits)


text \<open>
  A scan whose record is created, whose crawl returns and whose finalization returns:
  the result and the trace, in terms of the loop over the broken links.
\<close>

lemma run_completes:
  assumes create: "db_createScanResult env (websiteId cfg) (scanType_of cfg) (userId cfg) w
                     = (Inr scan, w1)"
    and crawl: "check env options w1 = (Inr crawl, w2)"
    and loop: "processLinks env cfg options (scan_id scan) (length (brokenLinks_of crawl)) 0
                 (brokenLinks_of crawl) []
                 \<lparr>world = w2,
                  trace = [(CreateScanResult (websiteId cfg) (scanType_of cfg) (userId cfg), Returned),
                           (Check options, Returned)]\<rparr> = (found, s2)"
    and finalize: "db_completeScanResult env (scan_id scan) (length (links crawl))
                     (length (brokenLinks_of crawl))
                     (calculateHealthScore (length (links crawl)) (length (brokenLinks_of crawl)))
                     (world s2) = (Inr rec, w3)"
  shows "run env cfg options w =
           (Inr \<lparr>res_passed = passed crawl,
                 res_links = links crawl,
                 scanId = scan_id scan,
                 res_websiteId = websiteId cfg,
                 totalLinks = length (links crawl),
                 brokenLinksCount = length (brokenLinks_of crawl),
                 healthScore =
                   calculateHealthScore (length (links crawl)) (length (brokenLinks_of crawl)),
                 brokenLinksWithAI = found,
                 scanDuration = now env w3 - now env w\<rparr>,
            \<lparr>world = w3,
             trace = trace s2 @
               [(CompleteScanResult (scan_id scan) (length (links crawl))
                   (length (brokenLinks_of crawl))
                   (calculateHealthScore (length (links crawl)) (length (brokenLinks_of crawl))),
                 Returned)]\<rparr>)"
proof -
  let ?s1 = "\<lparr>world = w1,
             trace = [(CreateScanResult (websiteId cfg) (scanType_of cfg) (userId cfg), Returned)]\<rparr>"
  let ?s2 = "\<lparr>world = w2,
             trace = [(CreateScanResult (websiteId cfg) (scanType_of cfg) (userId cfg), Returned),
                      (Check options, Returned)]\<rparr>"
  let ?bl = "brokenLinks_of crawl"
  let ?score = "calculateHealthScore (length (links crawl)) (length ?bl)"
  let ?s3 = "\<lparr>world = w3,
             trace = trace s2 @
               [(CompleteScanResult (scan_id scan) (length (links crawl)) (length ?bl) ?score,
                 Returned)]\<rparr>"
  have p0: "perform (CreateScanResult (websiteId cfg) (scanType_of cfg) (userId cfg))
              (db_createScanResult env (websiteId cfg) (scanType_of cfg) (userId cfg))
              \<lparr>world = w, trace = []\<rparr> = (Inr scan, ?s1)"
    using create by (simp add: perform_def outcome_of_def)
  have p1: "perform (Check options) (check env options) ?s1 = (Inr crawl, ?s2)"
    using crawl by (simp add: perform_def outcome_of_def)
  have loop': "(if length ?bl > 0
      then processLinks env cfg options (scan_id scan) (length ?bl) 0 ?bl [] ?s2
      else ([], ?s2)) = (found, s2)"
    using loop by (cases ?bl) auto
  have p3: "perform (CompleteScanResult (scan_id scan) (length (links crawl)) (length ?bl) ?score)
              (db_completeScanResult env (scan_id scan) (length (links crawl)) (length ?bl) ?score)
              s2 = (Inr rec, ?s3)"
    using finalize by (simp add: perform_def outcome_of_def)
  have st: "scan_try env cfg options (now env w) scan ?s1 =
          (Inr \<lparr>res_passed = passed crawl,
                 res_links = links crawl,
                 scanId = scan_id scan,
                 res_websiteId = websiteId cfg,
                 totalLinks = length (links crawl),
                 brokenLinksCount = length ?bl,
                 healthScore = ?score,
                 brokenLinksWithAI = found,
                 scanDuration = now env w3 - now env w\<rparr>, ?s3)"
    by (simp only: scan_try_def Let_def p1 loop' p3 sum.case prod.case
        run_state.select_convs)
  show ?thesis
    by (simp only: run_def checkWithIntelligence_def Let_def p0 st sum.case prod.case
        run_state.select_convs)
qed



text \<open>
  The same for a gateway whose failures do not depend on the moment: when \<open>fails\<close> tells
  for each broken link whether its step throws, the findings are those of the links that
  do not fail.
\<close>

lemma failing_links_skipped:
  assumes create: "db_createScanResult env (websiteId cfg) (scanType_of cfg) (userId cfg) w
                     = (Inr scan, w1)"
    and crawl: "check env options w1 = (Inr crawl, w2)"
    and fails: "\<forall>l\<in>set (brokenLinks_of crawl). \<forall>i s.
                  isl (fst (processLink env cfg options (scan_id scan)
                              (length (brokenLinks_of crawl)) i l s)) = fails l"
    and finalize: "\<forall>sid t b sc w'. \<exists>rec w''.
                     db_completeScanResult env sid t b sc w' = (Inr rec, w'')"
  shows "\<exists>res s'. run env cfg options w = (Inr res, s')
           \<and> list_all2 (describes env options)
                (filter (\<lambda>l. \<not> fails l) (brokenLinks_of crawl)) (brokenLinksWithAI res)"
proof -
  let ?s2 = "\<lparr>world = w2,
             trace = [(CreateScanResult (websiteId cfg) (scanType_of cfg) (userId cfg), Returned),
                      (Check options, Returned)]\<rparr>"
  let ?bl = "brokenLinks_of crawl"
  obtain found s2 where loop:
    "processLinks env cfg options (scan_id scan) (length ?bl) 0 ?bl [] ?s2 = (found, s2)"
    by (cases "processLinks env cfg options (scan_id scan) (length ?bl) 0 ?bl [] ?s2")
  from finalize obtain rec w3 where
    fin: "db_completeScanResult env (scan_id scan) (length (links crawl)) (length ?bl)
               (calculateHealthScore (length (links crawl)) (length ?bl)) (world s2)
             = (Inr rec, w3)" by blast
  from processLinks_findings [OF fails loop]
  have "list_all2 (describes env options) (filter (\<lambda>l. \<not> fails l) ?bl) found" by simp
  then show ?thesis
    using run_completes [OF create crawl loop fin] by simp
qed

subsection \<open>Fatal failures, suggested fixes and the delay\<close>

text \<open>
  C4, as stated, fails. The crawl throws \<open>crawl failed\<close> after the scan record was
  created, and the update that marks the scan failed throws \<open>connection lost\<close>: the
  \<^verbatim>\<open>await\<close> in the \<^verbatim>\<open>catch\<close> clause rejects, \<^verbatim>\<open>throw error\<close> is never reached, and the
  caller receives \<open>connection lost\<close>, not the crawl's error.
\<close>

theorem crawl_failure_rethrown_counterexample:
  "check crawl_and_mark_fail_env test_options 0 = (Inl (Error ''crawl failed''), 0)
   \<and> fst (run crawl_and_mark_fail_env (test_cfg False) test_options 0)
       = Inl (Error ''connection lost'')
   \<and> fst (run crawl_and_mark_fail_env (test_cfg False) test_options 0)
       \<noteq> Inl (Error ''crawl failed'')"
  by (simp add: run_def checkWithIntelligence_def scan_try_def perform_def Let_def
      crawl_and_mark_fail_env_def crawl_fails_env_def test_env_simps test_cfg_def)

text \<open>
  C4, amended. When creating the scan record throws, the error propagates at once and
  the only gateway call is the failed creation. When the crawl throws \<open>e\<close> after the
  record was created, the orchestrator calls the update that marks that record failed
  with the message of \<open>e\<close>, as its last call; when that update returns, \<open>e\<close> itself is
  raised to the caller; when the update throws, its error is raised instead. In neither
  case is a result returned.
\<close>

theorem fatal_failures:
  "(db_createScanResult env (websiteId cfg) (scanType_of cfg) (userId cfg) w = (Inl e, w1)
      \<longrightarrow> run env cfg options w =
            (Inl e, \<lparr>world = w1,
                     trace = [(CreateScanResult (websiteId cfg) (scanType_of cfg) (userId cfg),
                               Threw e)]\<rparr>))
   \<and> (db_createScanResult env (websiteId cfg) (scanType_of cfg) (userId cfg) w = (Inr scan, w1)
        \<and> check env options w1 = (Inl e, w2)
        \<and> db_markFailed env (scan_id scan) (message e) w2 = (r, w3)
      \<longrightarrow> run env cfg options w =
            (case r of Inl e2 \<Rightarrow> Inl e2 | Inr u \<Rightarrow> Inl e,
             \<lparr>world = w3,
              trace = [(CreateScanResult (websiteId cfg) (scanType_of cfg) (userId cfg), Returned),
                       (Check options, Threw e),
                       (MarkScanFailed (scan_id scan) (message e), outcome_of r)]\<rparr>))"
  by (auto simp: run_def checkWithIntelligence_def scan_try_def perform_def Let_def
      outcome_of_def split: sum.splits)

text \<open>The two cases of C4 on the test environment.\<close>

theorem fatal_failures_witness:
  "run create_fails_env (test_cfg False) test_options 0 =
     (Inl (Error ''no connection''),
      \<lparr>world = 0, trace = [(CreateScanResult 1 ''manual'' (Some 2), Threw (Error ''no connection''))]\<rparr>)
   \<and> run crawl_fails_env (test_cfg False) test_options 0 =
     (Inl (Error ''crawl failed''),
      \<lparr>world = 0,
       trace = [(CreateScanResult 1 ''manual'' (Some 2), Returned),
                (Check test_options, Threw (Error ''crawl failed'')),
                (MarkScanFailed 7 ''crawl failed'', Returned)]\<rparr>)"
proof -
  have a: "db_createScanResult create_fails_env (websiteId (test_cfg False))
             (scanType_of (test_cfg False)) (userId (test_cfg False)) 0
           = (Inl (Error ''no connection''), 0)"
    by (simp add: create_fails_env_def)
  have b: "db_createScanResult crawl_fails_env (websiteId (test_cfg False))
             (scanType_of (test_cfg False)) (userId (test_cfg False)) 0 = (Inr test_scan, 0)
           \<and> check crawl_fails_env test_options 0 = (Inl (Error ''crawl failed''), 0)
           \<and> db_markFailed crawl_fails_env (scan_id test_scan) (message (Error ''crawl failed'')) 0
               = (Inr (), 0)"
    by (simp add: crawl_fails_env_def test_env_simps test_scan_def test_cfg_def scanType_of_def)
  have c: "websiteId (test_cfg False) = 1" "scanType_of (test_cfg False) = ''manual''"
    "userId (test_cfg False) = Some 2" "scan_id test_scan = 7"
    by (simp_all add: test_cfg_def scanType_of_def test_scan_def)
  from fatal_failures [of create_fails_env "test_cfg False" 0 "Error ''no connection''" 0
         test_options test_scan, THEN conjunct1, rule_format, OF a]
       fatal_failures [of crawl_fails_env "test_cfg False" 0 "Error ''crawl failed''" 0
         test_options test_scan 0 "Inr ()" 0, THEN conjunct2, rule_format, OF b]
  show ?thesis
    by (simp add: c outcome_of_def)
qed

lemma addWayback_fixes:
  assumes "addWayback env cfg l a0 s = (Inr a, s')" "length (suggestedFixes a0) \<le> 3"
  shows "length (suggestedFixes a) \<le> fixes_bound cfg"
  using assms
  by (auto simp: addWayback_def fixes_bound_def split: if_splits prod.splits sum.splits option.splits)

lemma checkWaybackMachine_fetches:
  assumes "checkWaybackMachine env u s = (r, s')"
  shows "\<exists>evs. trace s' = trace s @ evs \<and> list_all is_fetch evs"
proof (cases "encodeURIComponent env u")
  case (Inl e)
  then have "s' = s"
    using assms by (simp add: checkWaybackMachine_def checkWaybackMachine_try_def)
  then show ?thesis by simp
next
  case (Inr enc)
  obtain r1 s1 where p: "perform (Fetch (wayback_api @ enc)) (fetch env (wayback_api @ enc)) s = (r1, s1)"
    by (cases "perform (Fetch (wayback_api @ enc)) (fetch env (wayback_api @ enc)) s")
  have "s' = s1"
    using assms Inr p
    by (auto simp: checkWaybackMachine_def checkWaybackMachine_try_def Let_def
        split: sum.splits if_splits)
  moreover have "trace s1 = trace s @ [(Fetch (wayback_api @ enc), outcome_of r1)]"
    using p by (rule perform_trace)
  ultimately show ?thesis by (simp add: is_fetch_def)
qed

lemma addWayback_fetches:
  assumes "addWayback env cfg l a s = (r, s')"
  shows "\<exists>evs. trace s' = trace s @ evs \<and> list_all is_fetch evs"
proof (cases "includeWayback cfg")
  case False
  then have "s' = s" using assms by (simp add: addWayback_def)
  then show ?thesis by simp
next
  case True
  obtain r1 s1 where c: "checkWaybackMachine env (link_url l) s = (r1, s1)"
    by (cases "checkWaybackMachine env (link_url l) s")
  have "s' = s1"
    using assms True c by (auto simp: addWayback_def split: sum.splits option.splits if_splits)
  then show ?thesis using checkWaybackMachine_fetches [OF c] by simp
qed

lemma is_fetch_fixes: "list_all is_fetch evs \<Longrightarrow> list_all (fixes_at_most k) evs"
  by (induction evs) (auto simp: is_fetch_def fixes_at_most_def split: effect.splits)

lemma is_fetch_no_delay: "list_all is_fetch evs \<Longrightarrow> filter is_delay evs = []"
  by (induction evs) (auto simp: is_fetch_def is_delay_def split: effect.splits)

lemma addWayback_fixes_trace:
  assumes "addWayback env cfg l a s = (r, s')"
  shows "\<exists>evs. trace s' = trace s @ evs \<and> list_all (fixes_at_most k) evs"
  using addWayback_fetches [OF assms] is_fetch_fixes by blast

lemma addWayback_no_delay:
  assumes "addWayback env cfg l a s = (r, s')"
  shows "\<exists>evs. trace s' = trace s @ evs \<and> filter is_delay evs = []"
  using addWayback_fetches [OF assms] is_fetch_no_delay by blast

text \<open>
  Where the delay is: a link whose step throws is followed by no delay; a link whose
  finding is pushed is followed by exactly one delay of 1000 ms unless it is the last.
\<close>

lemma processLink_delay:
  assumes "processLink env cfg options sid n i l s = (r, s')"
  shows "\<exists>evs. trace s' = trace s @ evs
           \<and> filter is_delay evs =
               (if isl r \<or> \<not> int i < int n - 1 then [] else [(SetTimeout 1000, Returned)])"
  using assms
proof (cases rule: processLink_cases)
  case (analyze_threw e)
  then show ?thesis by (auto dest!: perform_trace simp: is_delay_def)
next
  case (wayback_threw a0 s1 e)
  from addWayback_no_delay [OF wayback_threw(2)] perform_trace [OF wayback_threw(1)]
    wayback_threw(3)
  show ?thesis by (auto simp: is_delay_def)
next
  case (create_threw a0 s1 a s2 e)
  from addWayback_no_delay [OF create_threw(2)] perform_trace [OF create_threw(1)]
    perform_trace [OF create_threw(3)] create_threw(4)
  show ?thesis by (auto simp: is_delay_def)
next
  case (update_threw a0 s1 a s2 rec s3 e)
  from addWayback_no_delay [OF update_threw(2)] perform_trace [OF update_threw(1)]
    perform_trace [OF update_threw(3)] perform_trace [OF update_threw(4)] update_threw(5)
  show ?thesis by (auto simp: is_delay_def)
next
  case (pushed a0 s1 a s2 rec s3 upd s4)
  from addWayback_no_delay [OF pushed(2)] perform_trace [OF pushed(1)]
    perform_trace [OF pushed(3)] perform_trace [OF pushed(4)] pushed(5,6)
  show ?thesis by (auto simp: is_delay_def sleep_trace)
qed

lemma length_suggestedFixesForDb [simp]:
  "length (suggestedFixesForDb a) = length (suggestedFixes a)"
  by (simp add: suggestedFixesForDb_def)

lemma processLink_fixes:
  assumes "analyzer_contract env"
    and "processLink env cfg options sid n i l s = (r, s')"
  shows "(\<exists>evs. trace s' = trace s @ evs \<and> list_all (fixes_at_most (fixes_bound cfg)) evs)
         \<and> (case r of Inl e \<Rightarrow> True
             | Inr f \<Rightarrow> length (suggestedFixes (aiAnalysis f)) \<le> fixes_bound cfg)"
  using assms(2)
proof (cases rule: processLink_cases)
  case (analyze_threw e)
  then show ?thesis by (auto dest!: perform_trace simp: fixes_at_most_def)
next
  case (wayback_threw a0 s1 e)
  from addWayback_fixes_trace [OF wayback_threw(2), of "fixes_bound cfg"] perform_trace [OF wayback_threw(1)]
    wayback_threw(3)
  show ?thesis by (auto simp: fixes_at_most_def)
next
  case (create_threw a0 s1 a s2 e)
  from addWayback_fixes_trace [OF create_threw(2), of "fixes_bound cfg"] perform_trace [OF create_threw(1)]
    perform_trace [OF create_threw(3)] create_threw(4)
  show ?thesis by (auto simp: fixes_at_most_def)
next
  case (update_threw a0 s1 a s2 rec s3 e)
  have "length (suggestedFixes a0) \<le> 3"
    using assms(1) perform_world [OF update_threw(1)] by (auto simp: analyzer_contract_def)
  from addWayback_fixes [OF update_threw(2) this]
    addWayback_fixes_trace [OF update_threw(2), of "fixes_bound cfg"] perform_trace [OF update_threw(1)]
    perform_trace [OF update_threw(3)] perform_trace [OF update_threw(4)] update_threw(5)
  show ?thesis by (auto simp: fixes_at_most_def)
next
  case (pushed a0 s1 a s2 rec s3 upd s4)
  have "length (suggestedFixes a0) \<le> 3"
    using assms(1) perform_world [OF pushed(1)] by (auto simp: analyzer_contract_def)
  from addWayback_fixes [OF pushed(2) this]
    addWayback_fixes_trace [OF pushed(2), of "fixes_bound cfg"] perform_trace [OF pushed(1)]
    perform_trace [OF pushed(3)] perform_trace [OF pushed(4)] pushed(5,6)
  show ?thesis by (auto simp: fixes_at_most_def finding_of_def sleep_trace)
qed

lemma processLinks_fixes:
  assumes "analyzer_contract env"
    and "processLinks env cfg options sid n i ls acc s = (found, s')"
    and "list_all (\<lambda>f. length (suggestedFixes (aiAnalysis f)) \<le> fixes_bound cfg) acc"
  shows "(\<exists>evs. trace s' = trace s @ evs \<and> list_all (fixes_at_most (fixes_bound cfg)) evs)
         \<and> list_all (\<lambda>f. length (suggestedFixes (aiAnalysis f)) \<le> fixes_bound cfg) found"
  using assms(2,3)
proof (induction ls arbitrary: i acc s)
  case Nil
  then show ?case by simp
next
  case (Cons l ls)
  obtain r s1 where step: "processLink env cfg options sid n i l s = (r, s1)"
    by (cases "processLink env cfg options sid n i l s")
  from processLink_fixes [OF assms(1) step] obtain evs1 where
    e1: "trace s1 = trace s @ evs1" "list_all (fixes_at_most (fixes_bound cfg)) evs1"
    and f1: "case r of Inl e \<Rightarrow> True
             | Inr f \<Rightarrow> length (suggestedFixes (aiAnalysis f)) \<le> fixes_bound cfg"
    by blast
  define acc' where "acc' = (case r of Inl e \<Rightarrow> acc | Inr f \<Rightarrow> acc @ [f])"
  have next_call: "processLinks env cfg options sid n (Suc i) ls acc' s1 = (found, s')"
    using Cons.prems(1) step by (auto simp: acc'_def split: sum.splits)
  have "list_all (\<lambda>f. length (suggestedFixes (aiAnalysis f)) \<le> fixes_bound cfg) acc'"
    using Cons.prems(2) f1 by (auto simp: acc'_def split: sum.splits)
  from Cons.IH [OF next_call this] obtain evs2 where
    "trace s' = trace s1 @ evs2" "list_all (fixes_at_most (fixes_bound cfg)) evs2"
    and "list_all (\<lambda>f. length (suggestedFixes (aiAnalysis f)) \<le> fixes_bound cfg) found"
    by blast
  with e1 show ?case by auto
qed

lemma scan_try_fixes:
  assumes "analyzer_contract env"
    and "scan_try env cfg options t0 scan s = (r, s')"
  shows "(\<exists>evs. trace s' = trace s @ evs \<and> list_all (fixes_at_most (fixes_bound cfg)) evs)
         \<and> (case r of Inl e \<Rightarrow> True
             | Inr res \<Rightarrow> list_all (\<lambda>f. length (suggestedFixes (aiAnalysis f)) \<le> fixes_bound cfg)
                           (brokenLinksWithAI res))"
  using assms(2)
proof (cases rule: scan_try_cases)
  case (crawl_threw e)
  then show ?thesis by (auto dest!: perform_trace simp: fixes_at_most_def)
next
  case (complete_threw crawl s1 found s2 e)
  from processLinks_fixes [OF assms(1) complete_threw(2)] perform_trace [OF complete_threw(1)]
    perform_trace [OF complete_threw(3)] complete_threw(4)
  show ?thesis by (auto simp: fixes_at_most_def)
next
  case (completed crawl s1 found s2 rec)
  from processLinks_fixes [OF assms(1) completed(2)] perform_trace [OF completed(1)]
    perform_trace [OF completed(3)] completed(4)
  show ?thesis by (auto simp: fixes_at_most_def)
qed

text \<open>
  C5, amended. If the analyzer returns at most three suggested fixes, then in every run
  each finding returned and each update sent to the gateway carries at most four
  suggested fixes when the archive lookup is enabled, and at most three when it is
  disabled.
\<close>

theorem suggestedFixes_bound:
  assumes "analyzer_contract env"
  shows "list_all (fixes_at_most (fixes_bound cfg)) (trace (snd (run env cfg options w)))
         \<and> (case fst (run env cfg options w) of
               Inl e \<Rightarrow> True
             | Inr res \<Rightarrow>
                 list_all (\<lambda>f. length (suggestedFixes (aiAnalysis f)) \<le> fixes_bound cfg)
                   (brokenLinksWithAI res))"
proof -
  obtain r s' where run: "checkWithIntelligence env cfg options \<lparr>world = w, trace = []\<rparr> = (r, s')"
    by (cases "checkWithIntelligence env cfg options \<lparr>world = w, trace = []\<rparr>")
  from run have "list_all (fixes_at_most (fixes_bound cfg)) (trace s')
         \<and> (case r of
               Inl e \<Rightarrow> True
             | Inr res \<Rightarrow>
                 list_all (\<lambda>f. length (suggestedFixes (aiAnalysis f)) \<le> fixes_bound cfg)
                   (brokenLinksWithAI res))"
  proof (cases rule: checkWithIntelligence_cases)
    case (create_threw e)
    then show ?thesis by (auto dest!: perform_trace simp: fixes_at_most_def)
  next
    case (succeeded scan s1 res)
    from scan_try_fixes [OF assms succeeded(2)] perform_trace [OF succeeded(1)] succeeded(3)
    show ?thesis by (auto simp: fixes_at_most_def)
  next
    case (failed scan s1 err s2 r2)
    from scan_try_fixes [OF assms failed(2)] perform_trace [OF failed(1)]
      perform_trace [OF failed(3)] failed(4)
    show ?thesis by (auto simp: fixes_at_most_def split: sum.splits)
  qed
  then show ?thesis by (simp add: run_def run)
qed

lemma test_env_contract: "analyzer_contract (test_env ls snap)"
  by (auto simp: analyzer_contract_def test_env_simps test_analysis_def)

text \<open>
  C5, as stated, fails. The analyzer keeps its contract and returns three fixes; the
  archive lookup is enabled and returns a snapshot URL, which is put in front. The
  finding returned has four suggested fixes, and so has the update sent to the gateway.
\<close>

theorem suggestedFixes_at_most_three_counterexample:
  "analyzer_contract (test_env one_link test_snapshot)
   \<and> map (\<lambda>f. length (suggestedFixes (aiAnalysis f)))
        (brokenLinksWithAI (projr (fst (run (test_env one_link test_snapshot) (test_cfg True)
                                          test_options 0)))) = [4]
   \<and> \<not> list_all (fixes_at_most 3)
          (trace (snd (run (test_env one_link test_snapshot) (test_cfg True) test_options 0)))"
proof -
  have "map (\<lambda>f. length (suggestedFixes (aiAnalysis f)))
        (brokenLinksWithAI (projr (fst (run (test_env one_link test_snapshot) (test_cfg True)
                                          test_options 0)))) = [4]"
    by code_simp
  moreover have "\<not> list_all (fixes_at_most 3)
          (trace (snd (run (test_env one_link test_snapshot) (test_cfg True) test_options 0)))"
    by code_simp
  ultimately show ?thesis using test_env_contract by blast
qed

text \<open>The bound of four is reached on the test environment with the archive lookup on.\<close>

theorem suggestedFixes_bound_witness:
  "list_all (fixes_at_most 4)
     (trace (snd (run (test_env one_link test_snapshot) (test_cfg True) test_options 0)))
   \<and> (case fst (run (test_env one_link test_snapshot) (test_cfg True) test_options 0) of
         Inl e \<Rightarrow> True
       | Inr res \<Rightarrow>
           list_all (\<lambda>f. length (suggestedFixes (aiAnalysis f)) \<le> 4) (brokenLinksWithAI res))"
proof -
  have fb: "fixes_bound (test_cfg True) = 4"
    by (simp add: fixes_bound_def test_cfg_def)
  from suggestedFixes_bound [OF test_env_contract, of "test_cfg True" one_link test_snapshot
      test_options 0]
  show ?thesis unfolding fb .
qed

text \<open>
  C8 on a batch of two broken links where inserting the row of the first throws: both
  analyzer calls are made, the second finding is returned, and no delay is performed
  between the two links (the trace holds no timer event at all).
\<close>

theorem no_delay_after_failed_link:
  "length (brokenLinks_of \<lparr>passed = False, links = two_links\<rparr>) = 2
   \<and> map snd (filter (\<lambda>e. is_analyze e \<or> is_delay e)
        (trace (snd (run (test_env two_links test_snapshot) (test_cfg False) test_options 0))))
      = [Returned, Returned]
   \<and> filter is_delay
        (trace (snd (run (test_env two_links test_snapshot) (test_cfg False) test_options 0)))
      = []
   \<and> map url (brokenLinksWithAI (projr (fst
        (run (test_env two_links test_snapshot) (test_cfg False) test_options 0))))
      = [''https://example.org/donate'']"
  by code_simp

subsection \<open>Archive lookup\<close>

lemma checkWaybackMachine_never_throws:
  "\<exists>r. fst (checkWaybackMachine env u s) = Inr r"
  by (auto simp: checkWaybackMachine_def split: prod.splits sum.splits)

text \<open>
  C6, as stated, fails. The response is successful, the snapshot is marked available and
  a \<^verbatim>\<open>url\<close> field is present, but it is the empty string: \<^verbatim>\<open>url || null\<close> is \<^verbatim>\<open>null\<close>, so
  the lookup returns no result instead of the snapshot's URL.
\<close>

theorem archive_lookup_empty_url_counterexample:
  "fetch (test_env [] empty_url_snapshot) (wayback_api @ ''https://example.org/x'') 0 =
     (Inr \<lparr>ok = True,
           json = Inr \<lparr>archived_snapshots =
                          Some \<lparr>closest = Some \<lparr>snap_url = Some [],
                                                 snap_available = Some True\<rparr>\<rparr>\<rparr>\<rparr>, 0)
   \<and> fst (checkWaybackMachine (test_env [] empty_url_snapshot) ''https://example.org/x''
          \<lparr>world = 0, trace = []\<rparr>) = Inr None
   \<and> fst (checkWaybackMachine (test_env [] empty_url_snapshot) ''https://example.org/x''
          \<lparr>world = 0, trace = []\<rparr>) \<noteq> Inr (Some [])"
  by (simp add: checkWaybackMachine_def checkWaybackMachine_try_def perform_def Let_def
      test_env_simps empty_url_snapshot_def available_truthy_def url_or_null_def closest_of_def)

text \<open>
  C6, amended. The archive lookup never throws: it always returns a URL or \<^verbatim>\<open>null\<close>. It
  returns the URL \<open>a\<close> exactly when the request URL could be encoded, the fetch returned a
  successful response whose body parsed, the closest snapshot is there and marked
  available, and its \<^verbatim>\<open>url\<close> field is present, equal to \<open>a\<close> and not empty. In every other
  case (transport error, non-success response, unparsable body, missing or false flag,
  missing or empty URL) it returns \<^verbatim>\<open>null\<close>.
\<close>

theorem archive_lookup_result:
  "(\<exists>r. fst (checkWaybackMachine env u s) = Inr r)
   \<and> (fst (checkWaybackMachine env u s) = Inr (Some a) \<longleftrightarrow>
       (\<exists>enc response data c.
          encodeURIComponent env u = Inr enc
          \<and> fst (fetch env (wayback_api @ enc) (world s)) = Inr response
          \<and> ok response
          \<and> json response = Inr data
          \<and> closest_of data = Some c
          \<and> snap_available c = Some True
          \<and> snap_url c = Some a \<and> a \<noteq> []))"
proof
  show "\<exists>r. fst (checkWaybackMachine env u s) = Inr r"
    by (rule checkWaybackMachine_never_throws)
  show "fst (checkWaybackMachine env u s) = Inr (Some a) \<longleftrightarrow>
       (\<exists>enc response data c.
          encodeURIComponent env u = Inr enc
          \<and> fst (fetch env (wayback_api @ enc) (world s)) = Inr response
          \<and> ok response
          \<and> json response = Inr data
          \<and> closest_of data = Some c
          \<and> snap_available c = Some True
          \<and> snap_url c = Some a \<and> a \<noteq> [])"
    unfolding checkWaybackMachine_def checkWaybackMachine_try_def perform_def Let_def
      available_truthy_def url_or_null_def
    by (auto split: prod.splits sum.splits option.splits if_splits)
qed

lemma archive_lookup_example:
  "fst (checkWaybackMachine (test_env [] test_snapshot) ''https://example.org/x''
          \<lparr>world = 0, trace = []\<rparr>) = Inr (Some ''http://web.archive.org/web/2020/page'')"
  by (simp add: checkWaybackMachine_def checkWaybackMachine_try_def perform_def Let_def
      test_env_simps test_snapshot_def available_truthy_def url_or_null_def closest_of_def)

subsection \<open>The report\<close>








text \<open>The method, with the copy and the sort carried out.\<close>

lemma generateReport_eq:
  "generateReport h result =
     (if h ! brokenLinksWithAI result = []
      then (report_summary result @ report_none result @ report_footer, h)
      else (report_summary result @ report_heading
              @ report_links (array_sort by_priority (h ! brokenLinksWithAI result))
              @ report_footer,
            h @ [array_sort by_priority (h ! brokenLinksWithAI result)]))"
  by (simp add: generateReport_def array_spread_def array_sort_in_place_def)


lemma generateReport_order_example:
  "map url (array_sort by_priority (test_store ! 0)) =
     [''https://example.org/b'', ''https://example.org/a'', ''https://example.org/c'']"
  by code_simp

text \<open>
  C10. When the result's array is in the store, \<^verbatim>\<open>generateReport\<close> leaves it as it was, with
  the same findings in the same order; it leaves every array of the store as it was (the
  sorted copy is a new array); and rendering again from the store it leaves gives the
  same text.
\<close>

theorem generateReport_frame:
  assumes "brokenLinksWithAI result < length h"
  shows "snd (generateReport h result) ! brokenLinksWithAI result = h ! brokenLinksWithAI result
         \<and> take (length h) (snd (generateReport h result)) = h
         \<and> fst (generateReport (snd (generateReport h result)) result)
             = fst (generateReport h result)"
  using assms by (simp add: generateReport_eq nth_append)

theorem generateReport_frame_witness:
  "snd (generateReport test_store test_result) ! 0 =
     [test_finding ''https://example.org/a'' 50,
      test_finding ''https://example.org/b'' 90,
      test_finding ''https://example.org/c'' 50]
   \<and> snd (generateReport test_store test_result) ! 1 =
     [test_finding ''https://example.org/b'' 90,
      test_finding ''https://example.org/a'' 50,
      test_finding ''https://example.org/c'' 50]
   \<and> take 1 (snd (generateReport test_store test_result)) = test_store
   \<and> fst (generateReport (snd (generateReport test_store test_result)) test_result)
       = fst (generateReport test_store test_result)"
proof -
  have valid: "brokenLinksWithAI test_result < length test_store"
    by (simp add: test_result_def test_store_def)
  have len: "length test_store = 1" and ref: "brokenLinksWithAI test_result = 0"
    by (simp_all add: test_result_def test_store_def)
  have copy: "snd (generateReport test_store test_result) ! 1 =
     [test_finding ''https://example.org/b'' 90,
      test_finding ''https://example.org/a'' 50,
      test_finding ''https://example.org/c'' 50]"
    by (simp add: generateReport_eq ref test_store_def array_sort_def by_priority_def
        test_finding_def)
  from generateReport_frame [OF valid] copy show ?thesis
    by (simp add: len ref test_store_def)
qed

lemma number_formatting_examples:
  "show_nat 0 = ''0''" "show_nat 1204 = ''1204''" "show_int (- 7) = ''-7''"
  "toFixed2 (fdiv 1234 1000) = ''1.23''" "toFixed2 (fdiv 1235 1000) = ''1.24''"
  "toFixed2 (fdiv 5 1000) = ''0.01''"
  by code_simp+

end
